theory Spec2Isabelle
  imports Complex_Main "HOL-Library.Multiset"
begin

section \<open>Numbers\<close>

text \<open>
  TypeScript's \<open>number\<close> is an IEEE 754 binary64 value. The model takes its finite values
  as \<^typ>\<open>real\<close>; \<open>NaN\<close>, the infinities and overflow are outside the model. Comparisons,
  \<open>Math.min\<close>, \<open>Math.max\<close>, \<open>Math.ceil\<close> and \<open>Math.floor\<close> are exact on these values. The
  sizing policy's division, sum and product round to the nearest binary64 value, a tie to
  the one with the even significand: \<open>div64\<close>, \<open>add64\<close> and \<open>mul64\<close> below. The sample
  arithmetic of the resample pipeline is kept exact.
\<close>

text \<open>Rounding to the nearest integer, a tie to the even one.\<close>

definition roundTiesEven :: "real \<Rightarrow> int" where
  "roundTiesEven clamped =
     (let f = \<lfloor>clamped\<rfloor>
      in if clamped < real_of_int f + 0.5 then f
         else if clamped > real_of_int f + 0.5 then f + 1
         else if even f then f else f + 1)"

text \<open>
  The binary64 value nearest to a real: 53 significant bits, so the spacing at a number
  with binary exponent \<open>e\<close> is \<open>2 powr (e - 52)\<close>; below \<open>2 powr (- 1022)\<close> the spacing
  stays that of the smallest normal numbers.
\<close>

definition binary64 :: "real \<Rightarrow> real" where
  "binary64 x =
     (if x = 0 then 0
      else (let e = max \<lfloor>log 2 \<bar>x\<bar>\<rfloor> (- 1022);
                ulp = 2 powr real_of_int (e - 52)
            in real_of_int (roundTiesEven (x / ulp)) * ulp))"

text \<open>The operators \<open>/\<close>, \<open>+\<close> and \<open>*\<close> on numbers.\<close>

definition div64 :: "real \<Rightarrow> real \<Rightarrow> real" where
  "div64 a b = binary64 (a / b)"

definition add64 :: "real \<Rightarrow> real \<Rightarrow> real" where
  "add64 a b = binary64 (a + b)"

definition mul64 :: "real \<Rightarrow> real \<Rightarrow> real" where
  "mul64 a b = binary64 (a * b)"


section \<open>Sizing policy: \<open>calculateOptimizationTargets\<close> (src/utils/optimizer.ts, lines 10-102)\<close>

text \<open>A \<open>File\<close> or \<open>Blob\<close> is the list of its bytes.\<close>

type_synonym blob = "nat list"

text \<open>
  \<open>GlobalAssetStat\<close> and \<open>OptimizationTask\<close> are declared in \<open>../types\<close>; the records
  hold the fields that \<open>optimizer.ts\<close> reads and writes.
\<close>

record GlobalAssetStat =
  lookupKey :: string
  maxRenderWidth :: real
  maxRenderHeight :: real
  maxScaleX :: real
  maxScaleY :: real
  isOverridden :: bool
  overridePercentage :: "real option"

record LoadedImage =
  width :: real
  height :: real
  sourceWidth :: "real option"
  sourceHeight :: "real option"
  "file" :: blob
  originalPath :: string

record OptimizationTask =
  fileName :: string
  relativePath :: string
  originalWidth :: real
  originalHeight :: real
  targetWidth :: real
  targetHeight :: real
  blob :: blob
  maxScaleUsed :: real
  isResize :: bool
  taskOverridePercentage :: "real option"

text \<open>\<open>stats.forEach(s => statsMap.set(s.lookupKey, s))\<close>: a later stat replaces an earlier one.\<close>

definition buildStatsMap :: "GlobalAssetStat list \<Rightarrow> (string \<rightharpoonup> GlobalAssetStat)" where
  "buildStatsMap stats = fold (\<lambda>s m. m(lookupKey s \<mapsto> s)) stats Map.empty"

text \<open>\<open>original.sourceWidth ?? original.width\<close> and the same for the height.\<close>

definition physicalW :: "LoadedImage \<Rightarrow> real" where
  "physicalW original = (case sourceWidth original of Some w \<Rightarrow> w | None \<Rightarrow> width original)"

definition physicalH :: "LoadedImage \<Rightarrow> real" where
  "physicalH original = (case sourceHeight original of Some h \<Rightarrow> h | None \<Rightarrow> height original)"

text \<open>\<open>Math.ceil\<close> on a finite number.\<close>

definition Math_ceil :: "real \<Rightarrow> real" where
  "Math_ceil x = real_of_int \<lceil>x\<rceil>"

text \<open>
  Lines 39-50: the override takes the stat's size as it is; otherwise
  \<open>Math.ceil(stat.maxRenderWidth * (1 + (bufferPercentage / 100)))\<close>, each operator rounding.
\<close>

definition calculatedW :: "GlobalAssetStat \<Rightarrow> real \<Rightarrow> real" where
  "calculatedW stat bufferPercentage =
     (if isOverridden stat then maxRenderWidth stat
      else (let bufferMultiplier = add64 1 (div64 bufferPercentage 100)
            in Math_ceil (mul64 (maxRenderWidth stat) bufferMultiplier)))"

definition calculatedH :: "GlobalAssetStat \<Rightarrow> real \<Rightarrow> real" where
  "calculatedH stat bufferPercentage =
     (if isOverridden stat then maxRenderHeight stat
      else (let bufferMultiplier = add64 1 (div64 bufferPercentage 100)
            in Math_ceil (mul64 (maxRenderHeight stat) bufferMultiplier)))"

definition targetW :: "GlobalAssetStat \<Rightarrow> LoadedImage \<Rightarrow> real \<Rightarrow> real" where
  "targetW stat original bufferPercentage =
     max 1 (min (calculatedW stat bufferPercentage) (physicalW original))"

definition targetH :: "GlobalAssetStat \<Rightarrow> LoadedImage \<Rightarrow> real \<Rightarrow> real" where
  "targetH stat original bufferPercentage =
     max 1 (min (calculatedH stat bufferPercentage) (physicalH original))"

text \<open>\<open>String.prototype.lastIndexOf\<close> for a one-character pattern: \<open>-1\<close> when absent.\<close>

primrec lastIndexFrom :: "char \<Rightarrow> string \<Rightarrow> int \<Rightarrow> int \<Rightarrow> int" where
  "lastIndexFrom c [] i found = found"
| "lastIndexFrom c (x # xs) i found = lastIndexFrom c xs (i + 1) (if x = c then i else found)"

definition lastIndexOf :: "string \<Rightarrow> char \<Rightarrow> int" where
  "lastIndexOf s c = lastIndexFrom c s 0 (- 1)"

definition outputFileName :: "string \<Rightarrow> string" where
  "outputFileName sourcePath =
     (let lastSlashIndex = max (lastIndexOf sourcePath (CHR ''/'')) (lastIndexOf sourcePath (CHR 0x5C));
          lastDotIndex = lastIndexOf sourcePath (CHR ''.'');
          basePath = (if lastDotIndex > lastSlashIndex then take (nat lastDotIndex) sourcePath
                      else sourcePath)
      in basePath @ ''.png'')"

text \<open>The object pushed for a loaded image that has a stat (lines 31-95).\<close>

definition buildTask :: "GlobalAssetStat \<Rightarrow> LoadedImage \<Rightarrow> real \<Rightarrow> OptimizationTask" where
  "buildTask stat original bufferPercentage =
     \<lparr> fileName = outputFileName (originalPath original),
       relativePath = originalPath original,
       originalWidth = physicalW original,
       originalHeight = physicalH original,
       targetWidth = targetW stat original bufferPercentage,
       targetHeight = targetH stat original bufferPercentage,
       blob = file original,
       maxScaleUsed = max (maxScaleX stat) (maxScaleY stat),
       isResize = (targetW stat original bufferPercentage \<noteq> physicalW original
                   \<or> targetH stat original bufferPercentage \<noteq> physicalH original),
       taskOverridePercentage = overridePercentage stat \<rparr>"

text \<open>
  One call of the \<open>loadedImages.forEach\<close> callback: an image without a stat returns early,
  any other pushes its task.
\<close>

definition visitImage ::
  "(string \<rightharpoonup> GlobalAssetStat) \<Rightarrow> real \<Rightarrow> OptimizationTask list \<Rightarrow> string \<times> LoadedImage
     \<Rightarrow> OptimizationTask list" where
  "visitImage statsMap bufferPercentage tasks entry =
     (case statsMap (fst entry) of
        None \<Rightarrow> tasks
      | Some stat \<Rightarrow> tasks @ [buildTask stat (snd entry) bufferPercentage])"

text \<open>The comparator of \<open>tasks.sort\<close> (line 99).\<close>

definition compareTasks :: "OptimizationTask \<Rightarrow> OptimizationTask \<Rightarrow> int" where
  "compareTasks a b = (if isResize a = isResize b then 0 else if isResize a then - 1 else 1)"

text \<open>
  \<open>Array.prototype.sort\<close> with a comparator is a stable sort: a stable insertion sort
  that puts \<open>x\<close> before the first \<open>y\<close> with \<open>cmp x y \<le> 0\<close>.
\<close>

fun placeBy :: "('a \<Rightarrow> 'a \<Rightarrow> int) \<Rightarrow> 'a \<Rightarrow> 'a list \<Rightarrow> 'a list" where
  "placeBy cmp x [] = [x]"
| "placeBy cmp x (y # ys) = (if cmp x y \<le> 0 then x # y # ys else y # placeBy cmp x ys)"

definition sortWith :: "('a \<Rightarrow> 'a \<Rightarrow> int) \<Rightarrow> 'a list \<Rightarrow> 'a list" where
  "sortWith cmp xs = foldr (placeBy cmp) xs []"

text \<open>
  \<open>loadedImages\<close> is a \<open>Map\<close>, visited in insertion order: the list of its entries.
  \<open>bufferPercentage\<close> defaults to 0 at the call.
\<close>

definition calculateOptimizationTargets ::
  "GlobalAssetStat list \<Rightarrow> (string \<times> LoadedImage) list \<Rightarrow> real \<Rightarrow> OptimizationTask list" where
  "calculateOptimizationTargets stats loadedImages bufferPercentage =
     (let statsMap = buildStatsMap stats;
          tasks = foldl (visitImage statsMap bufferPercentage) [] loadedImages
      in sortWith compareTasks tasks)"

definition heroStat :: GlobalAssetStat where
  "heroStat = \<lparr> lookupKey = ''hero'', maxRenderWidth = 200, maxRenderHeight = 50,
       maxScaleX = 2, maxScaleY = 1 / 2, isOverridden = False, overridePercentage = None \<rparr>"

definition iconStat :: GlobalAssetStat where
  "iconStat = \<lparr> lookupKey = ''icon'', maxRenderWidth = 300, maxRenderHeight = 300,
       maxScaleX = 5, maxScaleY = 5, isOverridden = True, overridePercentage = Some 150 \<rparr>"

definition heroImage :: LoadedImage where
  "heroImage = \<lparr> width = 50, height = 50, sourceWidth = Some 100, sourceHeight = Some 100,
       file = [137, 80, 78, 71], originalPath = ''skins.v2/hero.jpg'' \<rparr>"

definition iconImage :: LoadedImage where
  "iconImage = \<lparr> width = 64, height = 64, sourceWidth = None, sourceHeight = None,
       file = [255, 216], originalPath = ''ui/icon'' \<rparr>"

definition unusedImage :: LoadedImage where
  "unusedImage = \<lparr> width = 8, height = 8, sourceWidth = None, sourceHeight = None,
       file = [0], originalPath = ''old.png'' \<rparr>"

definition exampleImages :: "(string \<times> LoadedImage) list" where
  "exampleImages = [(''icon'', iconImage), (''unused'', unusedImage), (''hero'', heroImage)]"


text \<open>A stat whose buffered width is not a binary64 value before rounding.\<close>

definition bannerStat :: GlobalAssetStat where
  "bannerStat = \<lparr> lookupKey = ''banner'', maxRenderWidth = 100, maxRenderHeight = 40,
       maxScaleX = 1, maxScaleY = 1, isOverridden = False, overridePercentage = None \<rparr>"

definition bannerImage :: LoadedImage where
  "bannerImage = \<lparr> width = 256, height = 256, sourceWidth = None, sourceHeight = None,
       file = [66], originalPath = ''banner.png'' \<rparr>"

section \<open>Resample pipeline: \<open>resizeImage\<close> (src/utils/optimizer.ts, lines 197-347)\<close>

subsection \<open>Step B: the Float32 pyramid (lines 214-247)\<close>

text \<open>
  A \<open>Float32Array\<close> is the list of its samples, as reals. One pass of the inner loop body
  writes the four channels of the output pixel \<open>(x, y)\<close>, each the mean of the four source
  samples of its 2x2 block.
\<close>

definition boxPixel :: "real list \<Rightarrow> nat \<Rightarrow> nat \<Rightarrow> nat \<Rightarrow> nat \<Rightarrow> real list \<Rightarrow> real list" where
  "boxPixel floatSrc srcW nextW y x nextBuf =
     (let row1 = (y * 2) * srcW * 4;
          row2 = (y * 2 + 1) * srcW * 4;
          dstRow = y * nextW * 4;
          col1 = x * 2 * 4;
          col2 = (x * 2 + 1) * 4;
          i1 = row1 + col1;
          i2 = row1 + col2;
          i3 = row2 + col1;
          i4 = row2 + col2
      in nextBuf
          [dstRow + x * 4 :=
             (floatSrc ! i1 + floatSrc ! i2 + floatSrc ! i3 + floatSrc ! i4) * 0.25,
           dstRow + x * 4 + 1 :=
             (floatSrc ! (i1 + 1) + floatSrc ! (i2 + 1) + floatSrc ! (i3 + 1) + floatSrc ! (i4 + 1)) * 0.25,
           dstRow + x * 4 + 2 :=
             (floatSrc ! (i1 + 2) + floatSrc ! (i2 + 2) + floatSrc ! (i3 + 2) + floatSrc ! (i4 + 2)) * 0.25,
           dstRow + x * 4 + 3 :=
             (floatSrc ! (i1 + 3) + floatSrc ! (i2 + 3) + floatSrc ! (i3 + 3) + floatSrc ! (i4 + 3)) * 0.25])"

text \<open>The loop over \<open>x\<close> for one output row, and the loop over \<open>y\<close> on a fresh zeroed buffer.\<close>

definition boxRow :: "real list \<Rightarrow> nat \<Rightarrow> nat \<Rightarrow> nat \<Rightarrow> real list \<Rightarrow> real list" where
  "boxRow floatSrc srcW nextW y nextBuf = fold (boxPixel floatSrc srcW nextW y) [0..<nextW] nextBuf"

definition boxFilter :: "real list \<Rightarrow> nat \<Rightarrow> nat \<Rightarrow> real list" where
  "boxFilter floatSrc srcW srcH =
     (let nextW = srcW div 2;
          nextH = srcH div 2;
          nextBuf = replicate (nextW * nextH * 4) 0
      in fold (boxRow floatSrc srcW nextW) [0..<nextH] nextBuf)"

text \<open>
  The \<open>while\<close> loop. The source sizes are pixel counts, the targets are the \<open>number\<close>s
  passed to \<open>resizeImage\<close>; they are written \<open>tgtWidth\<close> and \<open>tgtHeight\<close>, since
  \<open>targetWidth\<close> and \<open>targetHeight\<close> are the fields of a task. The result \<open>None\<close> stands
  for a loop that never exits.
\<close>

partial_function (option) pyramid ::
  "real list \<Rightarrow> nat \<Rightarrow> nat \<Rightarrow> real \<Rightarrow> real \<Rightarrow> (real list \<times> nat \<times> nat) option" where
  "pyramid floatSrc srcW srcH tgtWidth tgtHeight =
     (if real srcW > tgtWidth * 2 \<and> real srcH > tgtHeight * 2
      then pyramid (boxFilter floatSrc srcW srcH) (srcW div 2) (srcH div 2) tgtWidth tgtHeight
      else Some (floatSrc, srcW, srcH))"

text \<open>The mean that the source writes into channel \<open>c\<close> of output pixel \<open>(x, y)\<close>.\<close>

definition blockMean :: "real list \<Rightarrow> nat \<Rightarrow> nat \<Rightarrow> nat \<Rightarrow> nat \<Rightarrow> real" where
  "blockMean floatSrc srcW y x c =
     (floatSrc ! (((2 * y) * srcW + 2 * x) * 4 + c)
      + floatSrc ! (((2 * y) * srcW + (2 * x + 1)) * 4 + c)
      + floatSrc ! (((2 * y + 1) * srcW + 2 * x) * 4 + c)
      + floatSrc ! (((2 * y + 1) * srcW + (2 * x + 1)) * 4 + c)) * 0.25"


text \<open>A 4x4 source whose sample at index \<open>i\<close> is \<open>i\<close>.\<close>

definition rampBuffer :: "real list" where
  "rampBuffer = map real [0..<64]"


subsection \<open>Step C: the Lanczos3 kernel and the six tap weights (lines 253-280 and 298-317)\<close>

definition lanczos :: "real \<Rightarrow> real" where
  "lanczos x =
     (if x = 0 then 1
      else if \<bar>x\<bar> \<ge> 3 then 0
      else (let px = pi * x in (sin px / px) * (sin (px / 3) / (px / 3))))"

text \<open>
  The loop over \<open>k < 6\<close> fills \<open>weights\<close> and \<open>indices\<close> and accumulates \<open>weightSum\<close> from 0
  in the order of the taps; \<open>centerInt\<close> is \<open>Math.floor(center)\<close>.
\<close>

definition tapWeights :: "real \<Rightarrow> real list" where
  "tapWeights center =
     map (\<lambda>k. let neighbor = \<lfloor>center\<rfloor> - 2 + int k in lanczos (center - real_of_int neighbor)) [0..<6]"

definition tapIndices :: "real \<Rightarrow> nat \<Rightarrow> int list" where
  "tapIndices center srcSize =
     map (\<lambda>k. let neighbor = \<lfloor>center\<rfloor> - 2 + int k in min (max neighbor 0) (int srcSize - 1)) [0..<6]"

definition weightSum :: "real list \<Rightarrow> real" where
  "weightSum weights = foldl (+) 0 weights"

text \<open>
  A JavaScript division by zero yields \<open>NaN\<close> or an infinity, which \<^typ>\<open>real\<close> does not
  have: the model's division returns \<open>None\<close> there, so that a division by zero shows in
  the result of whatever performs it.
\<close>

definition divideNumber :: "real \<Rightarrow> real \<Rightarrow> real option" where
  "divideNumber a b = (if b = 0 then None else Some (a / b))"

text \<open>\<open>if (weightSum !== 0) for (k...) weights[k] /= weightSum\<close> (lines 278-280 and 315-317).\<close>

definition renormalize :: "real list \<Rightarrow> real \<Rightarrow> real list option" where
  "renormalize weights wSum =
     (if wSum \<noteq> 0 then those (map (\<lambda>w. divideNumber w wSum) weights) else Some weights)"

text \<open>
  The weights of output coordinate \<open>x\<close> on one axis. Pass 1 is
  \<open>axisWeights srcW targetWidth x\<close>, pass 2 is \<open>axisWeights srcH targetHeight y\<close>: the two
  loops have the same body. The loops run for \<open>x < targetSize\<close> only, so the ratio is
  computed for a positive target size.
\<close>

definition axisCenter :: "nat \<Rightarrow> real \<Rightarrow> nat \<Rightarrow> real" where
  "axisCenter srcSize tgtSize x = (let ratio = real srcSize / tgtSize in (real x + 0.5) * ratio - 0.5)"

definition axisWeights :: "nat \<Rightarrow> real \<Rightarrow> nat \<Rightarrow> real list option" where
  "axisWeights srcSize tgtSize x =
     (let center = axisCenter srcSize tgtSize x;
          weights = tapWeights center
      in renormalize weights (weightSum weights))"


subsection \<open>Step D: clamp to alpha, dither, store as 8-bit (lines 329-340)\<close>

text \<open>
  \<open>finalData\<close> is a \<open>Uint8ClampedArray\<close>: a store converts the number with ECMAScript's
  \<open>ToUint8Clamp\<close>, which clamps to \<open>[0, 255]\<close> and rounds to the nearest integer, a tie to
  the even one (\<open>roundTiesEven\<close>).
\<close>

definition ToUint8Clamp :: "real \<Rightarrow> nat" where
  "ToUint8Clamp number = (let clamped = min (max number 0) 255 in nat (roundTiesEven clamped))"

text \<open>\<open>Math.random() + Math.random() - 1.0\<close>, as a function of the two numbers drawn.\<close>

definition dither :: "real \<Rightarrow> real \<Rightarrow> real" where
  "dither rand1 rand2 = rand1 + rand2 - 1.0"

text \<open>
  The four stores of one output pixel, from the accumulated \<open>r\<close>, \<open>g\<close>, \<open>b\<close>, \<open>a\<close> and
  the two random numbers drawn for it.
\<close>

definition quantizePixel ::
  "nat list \<Rightarrow> nat \<Rightarrow> real \<Rightarrow> real \<Rightarrow> real \<Rightarrow> real \<Rightarrow> real \<Rightarrow> real \<Rightarrow> nat list" where
  "quantizePixel finalData dstIdx r g b a rand1 rand2 =
     (let d = dither rand1 rand2;
          finalA = a + d
      in finalData
          [dstIdx := ToUint8Clamp (min r a + d),
           dstIdx + 1 := ToUint8Clamp (min g a + d),
           dstIdx + 2 := ToUint8Clamp (min b a + d),
           dstIdx + 3 := ToUint8Clamp finalA])"


subsection \<open>Control flow of \<open>resizeImage\<close> (lines 197-216 and 343-346) and its helpers\<close>

text \<open>
  An exception is a value; a function that may throw returns \<open>exn + 'a\<close>, with \<open>Inl\<close> for
  the exception. A rejected promise that is awaited throws at the \<open>await\<close>.
\<close>

datatype exn = Exn string

record bitmap =
  bitmapWidth :: nat
  bitmapHeight :: nat

text \<open>
  What the browser does is a parameter of the model: \<open>createImageBitmap\<close> decodes or
  rejects; \<open>importContext\<close> and \<open>exportContext\<close> say whether \<open>canvas.getContext('webgl2', ...)\<close>
  returned a context in the import and in the export helper; \<open>readPixels\<close> is the upload
  and the read-back of the import helper, giving the byte at each index of \<open>data\<close>;
  \<open>toBlob\<close> is the draw and \<open>canvas.toBlob\<close> of the export helper, which may yield \<open>null\<close>.
  \<open>lanczosQuantize\<close> stands for steps C and D (lines 249-341), whose weights and stores
  are modelled above: they are counted loops, so they end; they draw from \<open>Math.random\<close>,
  and an allocation in them may throw.
\<close>

record browser =
  createImageBitmap :: "blob \<Rightarrow> exn + bitmap"
  importContext :: bool
  readPixels :: "bitmap \<Rightarrow> nat \<Rightarrow> nat \<Rightarrow> exn + (nat \<Rightarrow> nat)"
  lanczosQuantize :: "real list \<Rightarrow> nat \<Rightarrow> nat \<Rightarrow> real \<Rightarrow> real \<Rightarrow> exn + nat list"
  exportContext :: bool
  toBlob :: "nat list \<Rightarrow> real \<Rightarrow> real \<Rightarrow> exn + blob option"

text \<open>
  \<open>getRawBytesViaWebGL\<close> (lines 105-136): \<open>null\<close> without a context, else the
  \<open>width * height * 4\<close> bytes of \<open>data\<close> after the read-back.
\<close>

definition getRawBytesViaWebGL :: "browser \<Rightarrow> bitmap \<Rightarrow> nat \<Rightarrow> nat \<Rightarrow> exn + nat list option" where
  "getRawBytesViaWebGL env img w h =
     (if \<not> importContext env then Inr None
      else (case readPixels env img w h of
              Inl e \<Rightarrow> Inl e
            | Inr byteAt \<Rightarrow> Inr (Some (map byteAt [0..<w * h * 4]))))"

text \<open>\<open>exportBytesViaWebGL\<close> (lines 139-194): \<open>null\<close> without a context, else what \<open>toBlob\<close> gives.\<close>

definition exportBytesViaWebGL :: "browser \<Rightarrow> nat list \<Rightarrow> real \<Rightarrow> real \<Rightarrow> exn + blob option" where
  "exportBytesViaWebGL env bytes w h =
     (if \<not> exportContext env then Inr None else toBlob env bytes w h)"

text \<open>
  The body of the \<open>try\<close> block. The result \<open>None\<close> is a body that never ends, which is the
  pyramid loop never exiting; \<open>Some (Inl e)\<close> is an exception that reaches the \<open>catch\<close>;
  \<open>Some (Inr r)\<close> is the value returned.
\<close>

definition resizeImageBody ::
  "browser \<Rightarrow> blob \<Rightarrow> real \<Rightarrow> real \<Rightarrow> (exn + blob option) option" where
  "resizeImageBody env source tgtWidth tgtHeight =
     (case createImageBitmap env source of
        Inl e \<Rightarrow> Some (Inl e)
      | Inr img \<Rightarrow>
          (case getRawBytesViaWebGL env img (bitmapWidth img) (bitmapHeight img) of
             Inl e \<Rightarrow> Some (Inl e)
           | Inr None \<Rightarrow> Some (Inl (Exn ''WebGL Import Failed''))
           | Inr (Some rawData) \<Rightarrow>
               (case pyramid (map real rawData) (bitmapWidth img) (bitmapHeight img)
                       tgtWidth tgtHeight of
                  None \<Rightarrow> None
                | Some (floatSrc, srcW, srcH) \<Rightarrow>
                    (case lanczosQuantize env floatSrc srcW srcH tgtWidth tgtHeight of
                       Inl e \<Rightarrow> Some (Inl e)
                     | Inr finalData \<Rightarrow>
                         Some (exportBytesViaWebGL env finalData tgtWidth tgtHeight)))))"

text \<open>
  \<open>try { ... } catch(e) { console.error(...); return null; }\<close>: \<open>Some None\<close> is the result
  \<open>null\<close>, \<open>Some (Some b)\<close> the blob \<open>b\<close>, and \<open>None\<close> a call that never returns.
\<close>

definition resizeImage :: "browser \<Rightarrow> blob \<Rightarrow> real \<Rightarrow> real \<Rightarrow> blob option option" where
  "resizeImage env source tgtWidth tgtHeight =
     (case resizeImageBody env source tgtWidth tgtHeight of
        None \<Rightarrow> None
      | Some (Inl e) \<Rightarrow> Some None
      | Some (Inr result) \<Rightarrow> Some result)"

section \<open>Packaging: \<open>generateOptimizedZip\<close> (src/utils/optimizer.ts, lines 349-383)\<close>

text \<open>
  The state of the loop: the root folder, the files it holds by name, the counter
  \<open>completed\<close>, the calls of \<open>onProgress\<close>, and a log of the calls of \<open>resizeImage\<close> with
  their arguments. \<open>onProgress\<close> is taken to return.
\<close>

record zipState =
  rootFolder :: "string option"
  files :: "string \<rightharpoonup> blob"
  completed :: nat
  progressCalls :: "(nat \<times> nat) list"
  resizeCalls :: "(blob \<times> real \<times> real) list"

text \<open>
  \<open>rootFolder.file(name, data)\<close> of JSZip adds the file, or replaces the file of that name:
  a folder holds one file per name.
\<close>

definition addFile :: "string \<Rightarrow> blob \<Rightarrow> zipState \<Rightarrow> zipState" where
  "addFile zipEntryName bytes z = z\<lparr>files := (files z)(zipEntryName \<mapsto> bytes)\<rparr>"

definition reportProgress :: "nat \<Rightarrow> zipState \<Rightarrow> zipState" where
  "reportProgress taskCount z =
     (let z' = z\<lparr>completed := completed z + 1\<rparr>
      in z'\<lparr>progressCalls := progressCalls z' @ [(completed z', taskCount)]\<rparr>)"

text \<open>
  The body of the loop after the guard, for one task, in the browser as it is then;
  \<open>None\<close> when the awaited \<open>resizeImage\<close> never returns.
\<close>

definition processTask :: "browser \<Rightarrow> nat \<Rightarrow> zipState \<Rightarrow> OptimizationTask \<Rightarrow> zipState option" where
  "processTask env taskCount z task =
     (let zipEntryName = fileName task
      in if isResize task then
           (let z' = z\<lparr>resizeCalls := resizeCalls z @ [(blob task, targetWidth task, targetHeight task)]\<rparr>
            in (case resizeImage env (blob task) (targetWidth task) (targetHeight task) of
                  None \<Rightarrow> None
                | Some (Some resized) \<Rightarrow> Some (reportProgress taskCount (addFile zipEntryName resized z'))
                | Some None \<Rightarrow> Some (reportProgress taskCount (addFile zipEntryName (blob task) z'))))
         else Some (reportProgress taskCount (addFile zipEntryName (blob task) z)))"

text \<open>
  \<open>for (const task of tasks) { if (!rootFolder) break; ... }\<close>. The browser may change from
  one task to the next: \<open>browserAt i\<close> is the browser while the task at index \<open>i\<close> is
  processed, and \<open>completed\<close> is that index.
\<close>

fun zipLoop ::
  "(nat \<Rightarrow> browser) \<Rightarrow> nat \<Rightarrow> zipState \<Rightarrow> OptimizationTask list \<Rightarrow> zipState option" where
  "zipLoop browserAt taskCount z [] = Some z"
| "zipLoop browserAt taskCount z (task # rest) =
     (case rootFolder z of
        None \<Rightarrow> Some z
      | Some folder \<Rightarrow>
          (case processTask (browserAt (completed z)) taskCount z task of
             None \<Rightarrow> None
           | Some z' \<Rightarrow> zipLoop browserAt taskCount z' rest))"

text \<open>
  \<open>zip.folder("images_optimized")\<close> returns the folder or \<open>null\<close>: \<open>folderCreated\<close> says
  which. The result is the state at the end of the loop, from which \<open>generateAsync\<close> builds
  the archive, or \<open>None\<close> when the loop never ends.
\<close>

definition generateOptimizedZip ::
  "bool \<Rightarrow> (nat \<Rightarrow> browser) \<Rightarrow> OptimizationTask list \<Rightarrow> zipState option" where
  "generateOptimizedZip folderCreated browserAt tasks =
     zipLoop browserAt (length tasks)
       \<lparr> rootFolder = (if folderCreated then Some ''images_optimized'' else None),
         files = Map.empty, completed = 0, progressCalls = [], resizeCalls = [] \<rparr>
       tasks"

text \<open>The bytes stored for the task at index \<open>i\<close>, when its resize returns.\<close>

definition payload :: "(nat \<Rightarrow> browser) \<Rightarrow> nat \<Rightarrow> OptimizationTask \<Rightarrow> blob" where
  "payload browserAt i task =
     (if isResize task
      then (case resizeImage (browserAt i) (blob task) (targetWidth task) (targetHeight task) of
              Some (Some resized) \<Rightarrow> resized
            | _ \<Rightarrow> blob task)
      else blob task)"

text \<open>The stores of a list of tasks whose first has index \<open>k\<close>, in order.\<close>

fun handedOver :: "(nat \<Rightarrow> browser) \<Rightarrow> nat \<Rightarrow> OptimizationTask list \<Rightarrow> (string \<times> blob) list" where
  "handedOver browserAt k [] = []"
| "handedOver browserAt k (task # rest) =
     (fileName task, payload browserAt k task) # handedOver browserAt (Suc k) rest"

text \<open>The files of a folder after a list of stores: a later store of a name replaces.\<close>

definition storeAll :: "(string \<times> blob) list \<Rightarrow> (string \<rightharpoonup> blob) \<Rightarrow> (string \<rightharpoonup> blob)" where
  "storeAll stores held = fold (\<lambda>entry m. m(fst entry \<mapsto> snd entry)) stores held"

text \<open>The arguments of a call of \<open>resizeImage\<close> for a task.\<close>

definition resizeArgs :: "OptimizationTask \<Rightarrow> blob \<times> real \<times> real" where
  "resizeArgs task = (blob task, targetWidth task, targetHeight task)"

text \<open>A task's resize can return: its targets are not both negative.\<close>

definition resizeReturns :: "OptimizationTask \<Rightarrow> bool" where
  "resizeReturns task = (isResize task \<longrightarrow> \<not> (targetWidth task < 0 \<and> targetHeight task < 0))"

text \<open>
  Two browsers for the examples: one in which every step succeeds and the encoder
  returns three bytes, and one whose import helper gets no WebGL context.
\<close>

definition workingBrowser :: browser where
  "workingBrowser =
     \<lparr> createImageBitmap = (\<lambda>source. Inr \<lparr> bitmapWidth = 100, bitmapHeight = 100 \<rparr>),
       importContext = True,
       readPixels = (\<lambda>img w h. Inr (\<lambda>i. 255)),
       lanczosQuantize = (\<lambda>floatSrc w h tw th. Inr (replicate (nat \<lfloor>tw\<rfloor> * nat \<lfloor>th\<rfloor> * 4) 255)),
       exportContext = True,
       toBlob = (\<lambda>bytes w h. Inr (Some [1, 2, 3])) \<rparr>"

definition noWebGLBrowser :: browser where
  "noWebGLBrowser = workingBrowser\<lparr>importContext := False\<rparr>"

definition exampleTasks :: "OptimizationTask list" where
  "exampleTasks = [buildTask heroStat heroImage 0, buildTask iconStat iconImage 0]"

definition exampleBrowserAt :: "nat \<Rightarrow> browser" where
  "exampleBrowserAt i = (if i = 0 then noWebGLBrowser else workingBrowser)"













section \<open>Values of the binary64 rounding\<close>

text \<open>The rounding of a number whose binary exponent \<open>e\<close> is known.\<close>

lemma binary64_at:
  assumes "2 powr real_of_int e \<le> \<bar>x\<bar>"
    and "\<bar>x\<bar> < 2 powr real_of_int (e + 1)"
    and "- 1022 \<le> e"
  shows "binary64 x =
           real_of_int (roundTiesEven (x / 2 powr real_of_int (e - 52))) * 2 powr real_of_int (e - 52)"
proof -
  have "0 < 2 powr real_of_int e" by simp
  with assms(1) have pos: "0 < \<bar>x\<bar>" by linarith
  then have "\<lfloor>log 2 \<bar>x\<bar>\<rfloor> = e"
    using assms(1,2) floor_log_eq_powr_iff [of "\<bar>x\<bar>" 2 e] by simp
  with pos assms(3) show ?thesis
    by (simp add: binary64_def Let_def max_def)
qed

lemma binary64_0: "binary64 0 = 0"
  by (simp add: binary64_def)

lemma binary64_1: "binary64 1 = 1"
proof -
  have "binary64 1 =
      real_of_int (roundTiesEven (1 / 2 powr real_of_int (0 - 52))) * 2 powr real_of_int (0 - 52)"
    by (rule binary64_at) simp_all
  also have "2 powr real_of_int (0 - 52) = 1 / 2 ^ 52"
    by (simp add: powr_minus_divide)
  finally show ?thesis
    by (simp add: roundTiesEven_def)
qed

lemma binary64_50: "binary64 50 = 50"
proof -
  have "binary64 50 =
      real_of_int (roundTiesEven (50 / 2 powr real_of_int (5 - 52))) * 2 powr real_of_int (5 - 52)"
    by (rule binary64_at) simp_all
  also have "2 powr real_of_int (5 - 52) = 1 / 2 ^ 47"
    by (simp add: powr_minus_divide)
  finally show ?thesis
    by (simp add: roundTiesEven_def)
qed

lemma binary64_200: "binary64 200 = 200"
proof -
  have "binary64 200 =
      real_of_int (roundTiesEven (200 / 2 powr real_of_int (7 - 52))) * 2 powr real_of_int (7 - 52)"
    by (rule binary64_at) simp_all
  also have "2 powr real_of_int (7 - 52) = 1 / 2 ^ 45"
    by (simp add: powr_minus_divide)
  finally show ?thesis
    by (simp add: roundTiesEven_def)
qed

text \<open>
  The buffer multiplier for a buffer of 10 percent, and two products with it: \<open>10 / 100\<close>
  and \<open>1 + 10 / 100\<close> are not binary64 values, \<open>100 * 1.1\<close> rounds to a number above 110
  and \<open>40 * 1.1\<close> is a tie that rounds to 44.
\<close>

lemma div64_10_100: "div64 10 100 = 3602879701896397 / 2 ^ 55"
proof -
  have "binary64 (10 / 100) =
      real_of_int (roundTiesEven ((10 / 100) / 2 powr real_of_int (- 4 - 52)))
        * 2 powr real_of_int (- 4 - 52)"
    by (rule binary64_at) (simp_all add: powr_minus_divide)
  also have "2 powr real_of_int (- 4 - 52) = 1 / 2 ^ 56"
    by (simp add: powr_minus_divide)
  finally show ?thesis
    by (simp add: div64_def roundTiesEven_def Let_def)
qed

lemma multiplier_10: "add64 1 (div64 10 100) = 4953959590107546 / 2 ^ 52"
proof -
  have "binary64 (1 + 3602879701896397 / 2 ^ 55) =
      real_of_int (roundTiesEven ((1 + 3602879701896397 / 2 ^ 55) / 2 powr real_of_int (0 - 52)))
        * 2 powr real_of_int (0 - 52)"
    by (rule binary64_at) simp_all
  also have "2 powr real_of_int (0 - 52) = 1 / 2 ^ 52"
    by (simp add: powr_minus_divide)
  finally show ?thesis
    by (simp add: add64_def div64_10_100 roundTiesEven_def Let_def)
qed

lemma mul64_100_multiplier: "mul64 100 (4953959590107546 / 2 ^ 52) = 7740561859543041 / 2 ^ 46"
proof -
  have "binary64 (100 * (4953959590107546 / 2 ^ 52)) =
      real_of_int (roundTiesEven ((100 * (4953959590107546 / 2 ^ 52)) / 2 powr real_of_int (6 - 52)))
        * 2 powr real_of_int (6 - 52)"
    by (rule binary64_at) simp_all
  also have "2 powr real_of_int (6 - 52) = 1 / 2 ^ 46"
    by (simp add: powr_minus_divide)
  finally show ?thesis
    by (simp add: mul64_def roundTiesEven_def Let_def)
qed

lemma mul64_40_multiplier: "mul64 40 (4953959590107546 / 2 ^ 52) = 44"
proof -
  have "binary64 (40 * (4953959590107546 / 2 ^ 52)) =
      real_of_int (roundTiesEven ((40 * (4953959590107546 / 2 ^ 52)) / 2 powr real_of_int (5 - 52)))
        * 2 powr real_of_int (5 - 52)"
    by (rule binary64_at) simp_all
  also have "2 powr real_of_int (5 - 52) = 1 / 2 ^ 47"
    by (simp add: powr_minus_divide)
  finally show ?thesis
    by (simp add: mul64_def roundTiesEven_def Let_def)
qed

lemma ceil_buffered_100: "Math_ceil (mul64 100 (add64 1 (div64 10 100))) = 111"
  unfolding multiplier_10 mul64_100_multiplier by (simp add: Math_ceil_def)

lemma ceil_buffered_40: "Math_ceil (mul64 40 (add64 1 (div64 10 100))) = 44"
  unfolding multiplier_10 mul64_40_multiplier by (simp add: Math_ceil_def)

text \<open>In exact arithmetic the first ceiling would be 110.\<close>

lemma exact_ceiling_100: "\<lceil>100 * (1 + 10 / 100) :: real\<rceil> = 110"
  by simp


section \<open>Properties of the sizing policy\<close>

lemma mset_placeBy: "mset (placeBy cmp x xs) = add_mset x (mset xs)"
  by (induction xs) simp_all

lemma mset_sortWith: "mset (sortWith cmp xs) = mset xs"
  unfolding sortWith_def by (induction xs) (simp_all add: mset_placeBy)

lemma set_sortWith: "set (sortWith cmp xs) = set xs"
  by (metis mset_sortWith set_mset_mset)

lemma length_sortWith: "length (sortWith cmp xs) = length xs"
  by (metis mset_sortWith size_mset)

lemma foldl_visitImage:
  "foldl (visitImage m b) acc imgs = acc @ concat (map (visitImage m b []) imgs)"
proof (induction imgs arbitrary: acc)
  case Nil
  show ?case by simp
next
  case (Cons e imgs)
  have "visitImage m b acc e = acc @ visitImage m b [] e"
    by (simp add: visitImage_def split: option.split)
  then show ?case by (simp add: Cons.IH)
qed

lemma mset_targets:
  "mset (calculateOptimizationTargets stats imgs b) =
     mset (concat (map (visitImage (buildStatsMap stats) b []) imgs))"
  by (simp add: calculateOptimizationTargets_def mset_sortWith foldl_visitImage)

lemma set_targets:
  "set (calculateOptimizationTargets stats imgs b) =
     (\<Union>e\<in>set imgs. set (visitImage (buildStatsMap stats) b [] e))"
  by (simp add: calculateOptimizationTargets_def set_sortWith foldl_visitImage)

lemma task_origin:
  assumes "t \<in> set (calculateOptimizationTargets stats imgs b)"
  shows "\<exists>key original stat. (key, original) \<in> set imgs
    \<and> buildStatsMap stats key = Some stat \<and> t = buildTask stat original b"
proof -
  from assms obtain e where e: "e \<in> set imgs" and t: "t \<in> set (visitImage (buildStatsMap stats) b [] e)"
    unfolding set_targets by blast
  from t obtain stat where "buildStatsMap stats (fst e) = Some stat" "t = buildTask stat (snd e) b"
    by (cases "buildStatsMap stats (fst e)") (simp_all add: visitImage_def)
  then have "(fst e, snd e) \<in> set imgs \<and> buildStatsMap stats (fst e) = Some stat
      \<and> t = buildTask stat (snd e) b"
    using e by simp
  then show ?thesis by blast
qed

text \<open>
  Claim C1. When every loaded image has a physical cap of at least 1 on both axes
  (\<open>sourceWidth\<close>/\<open>sourceHeight\<close> if present, else \<open>width\<close>/\<open>height\<close>), every task that
  \<open>calculateOptimizationTargets\<close> returns has \<open>1 \<le> targetWidth \<le> originalWidth\<close> and
  \<open>1 \<le> targetHeight \<le> originalHeight\<close>, whatever the stats, the override flags and the
  buffer percentage.
\<close>

theorem targets_within_physical:
  assumes caps: "\<forall>e \<in> set loadedImages. 1 \<le> physicalW (snd e) \<and> 1 \<le> physicalH (snd e)"
    and t: "t \<in> set (calculateOptimizationTargets stats loadedImages bufferPercentage)"
  shows "1 \<le> targetWidth t \<and> targetWidth t \<le> originalWidth t
       \<and> 1 \<le> targetHeight t \<and> targetHeight t \<le> originalHeight t"
proof -
  from t obtain key original stat where e: "(key, original) \<in> set loadedImages"
    and t_def: "t = buildTask stat original bufferPercentage"
    using task_origin by blast
  from caps e have "1 \<le> physicalW original" "1 \<le> physicalH original" by auto
  then show ?thesis
    by (simp add: t_def buildTask_def targetW_def targetH_def)
qed


lemma dom_buildStatsMap_aux:
  "fold (\<lambda>s m. m(lookupKey s \<mapsto> s)) stats m0 k \<noteq> None
     \<longleftrightarrow> k \<in> lookupKey ` set stats \<or> m0 k \<noteq> None"
  by (induction stats arbitrary: m0) auto

lemma buildStatsMap_None: "buildStatsMap stats k = None \<longleftrightarrow> k \<notin> lookupKey ` set stats"
  using dom_buildStatsMap_aux [of stats Map.empty k] by (auto simp: buildStatsMap_def)

text \<open>
  Claim C2. A loaded image whose stat (the one the lookup finds for its key) is not
  overridden gets a task with
  \<open>targetWidth = max(1, min(ceil(maxRenderWidth * (1 + bufferPercentage / 100)), physicalWidth))\<close>
  and the same for the height, the division, the sum and the product being those of
  numbers (\<open>div64\<close>, \<open>add64\<close>, \<open>mul64\<close>). In particular \<open>sourceWidth = 100\<close>,
  \<open>maxRenderWidth = 200\<close> and a buffer of 0 give \<open>targetWidth = 100\<close>.
\<close>

theorem non_override_target:
  assumes e: "(key, original) \<in> set loadedImages"
    and stat: "buildStatsMap stats key = Some stat"
    and no_override: "\<not> isOverridden stat"
  shows "\<exists>t \<in> set (calculateOptimizationTargets stats loadedImages bufferPercentage).
           relativePath t = originalPath original \<and> blob t = file original
         \<and> originalWidth t = physicalW original \<and> originalHeight t = physicalH original
         \<and> targetWidth t = max 1 (min (Math_ceil (mul64 (maxRenderWidth stat) (add64 1 (div64 bufferPercentage 100))))
                                  (physicalW original))
         \<and> targetHeight t = max 1 (min (Math_ceil (mul64 (maxRenderHeight stat) (add64 1 (div64 bufferPercentage 100))))
                                   (physicalH original))"
proof -
  let ?t = "buildTask stat original bufferPercentage"
  have "?t \<in> set (visitImage (buildStatsMap stats) bufferPercentage [] (key, original))"
    by (simp add: visitImage_def stat)
  with e have "?t \<in> set (calculateOptimizationTargets stats loadedImages bufferPercentage)"
    unfolding set_targets by blast
  moreover have "targetWidth ?t = max 1 (min (Math_ceil (mul64 (maxRenderWidth stat) (add64 1 (div64 bufferPercentage 100))))
                                  (physicalW original))"
    using no_override by (simp add: buildTask_def targetW_def calculatedW_def)
  moreover have "targetHeight ?t = max 1 (min (Math_ceil (mul64 (maxRenderHeight stat) (add64 1 (div64 bufferPercentage 100))))
                                   (physicalH original))"
    using no_override by (simp add: buildTask_def targetH_def calculatedH_def)
  moreover have "relativePath ?t = originalPath original \<and> blob ?t = file original
         \<and> originalWidth ?t = physicalW original \<and> originalHeight ?t = physicalH original"
    by (simp add: buildTask_def)
  ultimately show ?thesis by blast
qed

lemma concat_visitImage:
  "concat (map (visitImage m b []) imgs) =
     map (\<lambda>e. buildTask (the (m (fst e))) (snd e) b) (filter (\<lambda>e. m (fst e) \<noteq> None) imgs)"
  by (induction imgs) (auto simp: visitImage_def)

text \<open>
  Claim C7. The returned tasks are, up to order, exactly the tasks built for the loaded
  images whose key has a stat: an image whose key is absent from the stats gets none, and
  the number of tasks is the number of loaded images less the number of absent ones.
\<close>

theorem unused_images_excluded:
  "mset (calculateOptimizationTargets stats loadedImages bufferPercentage) =
     mset (map (\<lambda>e. buildTask (the (buildStatsMap stats (fst e))) (snd e) bufferPercentage)
               (filter (\<lambda>e. fst e \<in> lookupKey ` set stats) loadedImages))
   \<and> length (calculateOptimizationTargets stats loadedImages bufferPercentage) =
       length (filter (\<lambda>e. fst e \<in> lookupKey ` set stats) loadedImages)
   \<and> length (calculateOptimizationTargets stats loadedImages bufferPercentage) =
       length loadedImages - length (filter (\<lambda>e. fst e \<notin> lookupKey ` set stats) loadedImages)"
proof -
  have f: "(\<lambda>e. buildStatsMap stats (fst e) \<noteq> None) = (\<lambda>e. fst e \<in> lookupKey ` set stats)"
    by (simp add: buildStatsMap_None)
  have m: "mset (calculateOptimizationTargets stats loadedImages bufferPercentage) =
     mset (map (\<lambda>e. buildTask (the (buildStatsMap stats (fst e))) (snd e) bufferPercentage)
               (filter (\<lambda>e. fst e \<in> lookupKey ` set stats) loadedImages))"
    by (simp only: mset_targets concat_visitImage f)
  have l: "length (calculateOptimizationTargets stats loadedImages bufferPercentage) =
       length (filter (\<lambda>e. fst e \<in> lookupKey ` set stats) loadedImages)"
  proof -
    have "length (calculateOptimizationTargets stats loadedImages bufferPercentage) =
        size (mset (calculateOptimizationTargets stats loadedImages bufferPercentage))"
      by simp
    also have "\<dots> = length (filter (\<lambda>e. fst e \<in> lookupKey ` set stats) loadedImages)"
      unfolding m by (simp only: size_mset length_map)
    finally show ?thesis .
  qed
  have "length (filter (\<lambda>e. fst e \<in> lookupKey ` set stats) loadedImages)
      + length (filter (\<lambda>e. fst e \<notin> lookupKey ` set stats) loadedImages) = length loadedImages"
    using sum_length_filter_compl [of "\<lambda>e. fst e \<in> lookupKey ` set stats" loadedImages] by simp
  with m l show ?thesis by simp
qed

lemma set_placeBy: "set (placeBy cmp x xs) = insert x (set xs)"
  by (metis mset_placeBy set_mset_mset set_mset_add_mset_insert)

lemma resized_first_placeBy:
  "sorted_wrt (\<lambda>a b. isResize b \<longrightarrow> isResize a) xs
     \<Longrightarrow> sorted_wrt (\<lambda>a b. isResize b \<longrightarrow> isResize a) (placeBy compareTasks x xs)"
  by (induction xs) (auto simp: set_placeBy compareTasks_def split: if_splits)

lemma resized_first_sortWith:
  "sorted_wrt (\<lambda>a b. isResize b \<longrightarrow> isResize a) (sortWith compareTasks xs)"
  unfolding sortWith_def by (induction xs) (simp_all add: resized_first_placeBy)

text \<open>The sort is a stable partition: the order of discovery is kept within each group.\<close>

lemma placeBy_resized:
  "isResize x \<Longrightarrow> placeBy compareTasks x xs = x # xs"
  by (cases xs) (simp_all add: compareTasks_def)

lemma placeBy_unresized:
  "\<not> isResize x \<Longrightarrow>
     placeBy compareTasks x (filter isResize xs @ filter (\<lambda>t. \<not> isResize t) ys)
       = filter isResize xs @ x # filter (\<lambda>t. \<not> isResize t) ys"
proof (induction xs)
  case Nil
  then show ?case
    by (cases "filter (\<lambda>t. \<not> isResize t) ys")
      (auto simp: compareTasks_def dest: filter_eq_ConsD)
next
  case (Cons a xs)
  then show ?case by (simp add: compareTasks_def)
qed

lemma sortWith_stable_partition:
  "sortWith compareTasks tasks = filter isResize tasks @ filter (\<lambda>t. \<not> isResize t) tasks"
proof (induction tasks)
  case Nil
  show ?case by (simp add: sortWith_def)
next
  case (Cons t tasks)
  have "sortWith compareTasks (t # tasks) = placeBy compareTasks t (sortWith compareTasks tasks)"
    by (simp add: sortWith_def)
  then show ?case
    unfolding Cons.IH by (cases "isResize t") (simp_all add: placeBy_resized placeBy_unresized)
qed

text \<open>
  Claim C8. In the returned list no task with \<open>isResize = false\<close> stands before a task
  with \<open>isResize = true\<close>.
\<close>

theorem resized_tasks_first:
  "\<forall>i j. i < j \<and> j < length (calculateOptimizationTargets stats loadedImages bufferPercentage)
     \<longrightarrow> \<not> (\<not> isResize (calculateOptimizationTargets stats loadedImages bufferPercentage ! i)
            \<and> isResize (calculateOptimizationTargets stats loadedImages bufferPercentage ! j))"
proof -
  have "sorted_wrt (\<lambda>a b. isResize b \<longrightarrow> isResize a)
          (calculateOptimizationTargets stats loadedImages bufferPercentage)"
    by (simp add: calculateOptimizationTargets_def resized_first_sortWith)
  then show ?thesis
    by (auto simp: sorted_wrt_iff_nth_less)
qed


lemmas sizing_defs = calculateOptimizationTargets_def buildStatsMap_def visitImage_def
  buildTask_def sortWith_def compareTasks_def targetW_def targetH_def calculatedW_def
  calculatedH_def Math_ceil_def physicalW_def physicalH_def outputFileName_def lastIndexOf_def
  div64_def add64_def mul64_def binary64_0 binary64_1 binary64_50 binary64_200
  heroStat_def iconStat_def heroImage_def iconImage_def unusedImage_def exampleImages_def

lemma outputFileName_examples:
  "outputFileName ''a/b.c.png'' = ''a/b.c.png''"
  "outputFileName ''a.b/c'' = ''a.b/c.png''"
  "outputFileName ''hero.jpeg'' = ''hero.png''"
  by (simp_all add: outputFileName_def lastIndexOf_def)

lemma example_targets:
  "calculateOptimizationTargets [heroStat, iconStat] exampleImages 0 =
     [buildTask heroStat heroImage 0, buildTask iconStat iconImage 0]"
  by (simp add: calculateOptimizationTargets_def buildStatsMap_def visitImage_def
    sortWith_def compareTasks_def exampleImages_def heroStat_def iconStat_def
    buildTask_def targetW_def targetH_def calculatedW_def
    calculatedH_def Math_ceil_def physicalW_def physicalH_def heroImage_def iconImage_def
    div64_def add64_def mul64_def binary64_0 binary64_1 binary64_50 binary64_200)

lemma example_hero_task:
  "buildTask heroStat heroImage 0 =
     \<lparr> fileName = ''skins.v2/hero.png'', relativePath = ''skins.v2/hero.jpg'',
       originalWidth = 100, originalHeight = 100, targetWidth = 100, targetHeight = 50,
       blob = [137, 80, 78, 71], maxScaleUsed = 2, isResize = True,
       taskOverridePercentage = None \<rparr>"
  by (simp add: sizing_defs)

lemma example_icon_task:
  "buildTask iconStat iconImage 0 =
     \<lparr> fileName = ''ui/icon.png'', relativePath = ''ui/icon'',
       originalWidth = 64, originalHeight = 64, targetWidth = 64, targetHeight = 64,
       blob = [255, 216], maxScaleUsed = 5, isResize = False,
       taskOverridePercentage = Some 150 \<rparr>"
  by (simp add: sizing_defs)

theorem targets_within_physical_witness:
  "1 \<le> physicalW iconImage \<and> 1 \<le> physicalH iconImage
   \<and> 1 \<le> physicalW unusedImage \<and> 1 \<le> physicalH unusedImage
   \<and> 1 \<le> physicalW heroImage \<and> 1 \<le> physicalH heroImage
   \<and> buildTask heroStat heroImage 0
        \<in> set (calculateOptimizationTargets [heroStat, iconStat] exampleImages 0)
   \<and> 1 \<le> targetWidth (buildTask heroStat heroImage 0)
   \<and> targetWidth (buildTask heroStat heroImage 0) \<le> originalWidth (buildTask heroStat heroImage 0)
   \<and> 1 \<le> targetHeight (buildTask heroStat heroImage 0)
   \<and> targetHeight (buildTask heroStat heroImage 0) \<le> originalHeight (buildTask heroStat heroImage 0)"
proof -
  have each: "1 \<le> physicalW iconImage \<and> 1 \<le> physicalH iconImage
   \<and> 1 \<le> physicalW unusedImage \<and> 1 \<le> physicalH unusedImage
   \<and> 1 \<le> physicalW heroImage \<and> 1 \<le> physicalH heroImage"
    by (simp add: physicalW_def physicalH_def heroImage_def iconImage_def unusedImage_def)
  then have caps: "\<forall>e \<in> set exampleImages. 1 \<le> physicalW (snd e) \<and> 1 \<le> physicalH (snd e)"
    by (simp add: exampleImages_def)
  have emitted: "buildTask heroStat heroImage 0
        \<in> set (calculateOptimizationTargets [heroStat, iconStat] exampleImages 0)"
    by (simp add: example_targets)
  show ?thesis
    using each emitted targets_within_physical [OF caps emitted] by blast
qed

theorem non_override_target_witness:
  "(''hero'', heroImage) \<in> set exampleImages
   \<and> buildStatsMap [heroStat, iconStat] ''hero'' = Some heroStat
   \<and> \<not> isOverridden heroStat
   \<and> sourceWidth heroImage = Some 100 \<and> maxRenderWidth heroStat = 200
   \<and> (\<exists>t \<in> set (calculateOptimizationTargets [heroStat, iconStat] exampleImages 0).
         relativePath t = ''skins.v2/hero.jpg'' \<and> targetWidth t = 100 \<and> targetHeight t = 50)
   \<and> (''banner'', bannerImage) \<in> set [(''banner'', bannerImage)]
   \<and> buildStatsMap [bannerStat] ''banner'' = Some bannerStat
   \<and> \<not> isOverridden bannerStat
   \<and> maxRenderWidth bannerStat = 100 \<and> maxRenderHeight bannerStat = 40
   \<and> (\<exists>t \<in> set (calculateOptimizationTargets [bannerStat] [(''banner'', bannerImage)] 10).
         relativePath t = ''banner.png'' \<and> targetWidth t = 111 \<and> targetHeight t = 44)"
proof -
  have e: "(''hero'', heroImage) \<in> set exampleImages"
    by (simp add: exampleImages_def)
  have s: "buildStatsMap [heroStat, iconStat] ''hero'' = Some heroStat"
    by (simp add: buildStatsMap_def heroStat_def iconStat_def)
  have n: "\<not> isOverridden heroStat"
    by (simp add: heroStat_def)
  have v: "sourceWidth heroImage = Some 100 \<and> maxRenderWidth heroStat = 200"
    by (simp add: heroStat_def heroImage_def)
  from non_override_target [OF e s n, of 0]
  obtain t where t: "t \<in> set (calculateOptimizationTargets [heroStat, iconStat] exampleImages 0)"
    and p: "relativePath t = originalPath heroImage"
    and w: "targetWidth t = max 1 (min (Math_ceil (mul64 (maxRenderWidth heroStat) (add64 1 (div64 0 100))))
                                  (physicalW heroImage))"
    and h: "targetHeight t = max 1 (min (Math_ceil (mul64 (maxRenderHeight heroStat) (add64 1 (div64 0 100))))
                                  (physicalH heroImage))"
    by blast
  have "relativePath t = ''skins.v2/hero.jpg''"
    using p by (simp add: heroImage_def)
  moreover have "targetWidth t = 100"
    using w by (simp add: heroStat_def heroImage_def physicalW_def Math_ceil_def
        div64_def add64_def mul64_def binary64_0 binary64_1 binary64_200)
  moreover have "targetHeight t = 50"
    using h by (simp add: heroStat_def heroImage_def physicalH_def Math_ceil_def
        div64_def add64_def mul64_def binary64_0 binary64_1 binary64_50)
  ultimately have hero: "\<exists>t \<in> set (calculateOptimizationTargets [heroStat, iconStat] exampleImages 0).
         relativePath t = ''skins.v2/hero.jpg'' \<and> targetWidth t = 100 \<and> targetHeight t = 50"
    using t by blast
  have e': "(''banner'', bannerImage) \<in> set [(''banner'', bannerImage)]"
    by simp
  have s': "buildStatsMap [bannerStat] ''banner'' = Some bannerStat"
    by (simp add: buildStatsMap_def bannerStat_def)
  have n': "\<not> isOverridden bannerStat"
    by (simp add: bannerStat_def)
  have v': "maxRenderWidth bannerStat = 100 \<and> maxRenderHeight bannerStat = 40"
    by (simp add: bannerStat_def)
  from non_override_target [OF e' s' n', of 10]
  obtain u where u: "u \<in> set (calculateOptimizationTargets [bannerStat] [(''banner'', bannerImage)] 10)"
    and p': "relativePath u = originalPath bannerImage"
    and w': "targetWidth u = max 1 (min (Math_ceil (mul64 (maxRenderWidth bannerStat) (add64 1 (div64 10 100))))
                                  (physicalW bannerImage))"
    and h': "targetHeight u = max 1 (min (Math_ceil (mul64 (maxRenderHeight bannerStat) (add64 1 (div64 10 100))))
                                  (physicalH bannerImage))"
    by blast
  have mw: "maxRenderWidth bannerStat = 100" and mh: "maxRenderHeight bannerStat = 40"
    by (simp_all add: bannerStat_def)
  have "relativePath u = ''banner.png''"
    using p' by (simp add: bannerImage_def)
  moreover have "targetWidth u = 111"
    using w' unfolding mw ceil_buffered_100 by (simp add: bannerImage_def physicalW_def)
  moreover have "targetHeight u = 44"
    using h' unfolding mh ceil_buffered_40 by (simp add: bannerImage_def physicalH_def)
  ultimately have banner:
    "\<exists>t \<in> set (calculateOptimizationTargets [bannerStat] [(''banner'', bannerImage)] 10).
         relativePath t = ''banner.png'' \<and> targetWidth t = 111 \<and> targetHeight t = 44"
    using u by blast
  from e s n v hero e' s' n' v' banner show ?thesis by blast
qed

theorem resized_tasks_first_witness:
  "(0::nat) < 1 \<and> 1 < length (calculateOptimizationTargets [heroStat, iconStat] exampleImages 0)
   \<and> isResize (calculateOptimizationTargets [heroStat, iconStat] exampleImages 0 ! 0)
   \<and> \<not> isResize (calculateOptimizationTargets [heroStat, iconStat] exampleImages 0 ! 1)"
  using resized_tasks_first [of "[heroStat, iconStat]" exampleImages 0]
  by (simp add: example_targets example_hero_task example_icon_task)

theorem unused_images_excluded_witness:
  "length exampleImages = 3
   \<and> filter (\<lambda>e. fst e \<notin> lookupKey ` set [heroStat, iconStat]) exampleImages
       = [(''unused'', unusedImage)]
   \<and> length (calculateOptimizationTargets [heroStat, iconStat] exampleImages 0) = 2
   \<and> mset (calculateOptimizationTargets [heroStat, iconStat] exampleImages 0)
       = {#buildTask iconStat iconImage 0, buildTask heroStat heroImage 0#}"
proof -
  have absent: "filter (\<lambda>e. fst e \<notin> lookupKey ` set [heroStat, iconStat]) exampleImages
       = [(''unused'', unusedImage)]"
    by (simp add: exampleImages_def heroStat_def iconStat_def)
  have present: "filter (\<lambda>e. fst e \<in> lookupKey ` set [heroStat, iconStat]) exampleImages
       = [(''icon'', iconImage), (''hero'', heroImage)]"
    by (simp add: exampleImages_def heroStat_def iconStat_def)
  have stats: "buildStatsMap [heroStat, iconStat] ''icon'' = Some iconStat"
    "buildStatsMap [heroStat, iconStat] ''hero'' = Some heroStat"
    by (simp_all add: buildStatsMap_def heroStat_def iconStat_def)
  have len: "length exampleImages = 3"
    by (simp add: exampleImages_def)
  show ?thesis
    using unused_images_excluded [of "[heroStat, iconStat]" exampleImages 0]
    unfolding absent present len by (simp add: stats)
qed

section \<open>Properties of the pyramid\<close>

lemma length_boxPixel: "length (boxPixel floatSrc srcW nextW y x buf) = length buf"
  by (simp add: boxPixel_def Let_def)

lemma length_boxRow_aux:
  "length (fold (boxPixel floatSrc srcW nextW y) xs buf) = length buf"
  by (induction xs arbitrary: buf) (simp_all add: length_boxPixel)

lemma length_boxRow: "length (boxRow floatSrc srcW nextW y buf) = length buf"
  by (simp add: boxRow_def length_boxRow_aux)

lemma length_boxRows:
  "length (fold (boxRow floatSrc srcW nextW) ys buf) = length buf"
  by (induction ys arbitrary: buf) (simp_all add: length_boxRow)

lemma length_boxFilter:
  "length (boxFilter floatSrc srcW srcH) = (srcW div 2) * (srcH div 2) * 4"
  by (simp add: boxFilter_def Let_def length_boxRows)

lemma boxPixel_alt:
  "boxPixel floatSrc srcW nextW y x buf =
     buf[(y * nextW + x) * 4 := blockMean floatSrc srcW y x 0,
         (y * nextW + x) * 4 + 1 := blockMean floatSrc srcW y x 1,
         (y * nextW + x) * 4 + 2 := blockMean floatSrc srcW y x 2,
         (y * nextW + x) * 4 + 3 := blockMean floatSrc srcW y x 3]"
proof -
  have d: "y * nextW * 4 + x * 4 = (y * nextW + x) * 4"
    by (simp add: algebra_simps)
  have i1: "y * 2 * srcW * 4 + x * 2 * 4 = ((2 * y) * srcW + 2 * x) * 4"
    by (simp add: algebra_simps)
  have i2: "y * 2 * srcW * 4 + (x * 2 + 1) * 4 = ((2 * y) * srcW + (2 * x + 1)) * 4"
    by (simp add: algebra_simps)
  have i3: "(y * 2 + 1) * srcW * 4 + x * 2 * 4 = ((2 * y + 1) * srcW + 2 * x) * 4"
    by (simp add: algebra_simps)
  have i4: "(y * 2 + 1) * srcW * 4 + (x * 2 + 1) * 4 = ((2 * y + 1) * srcW + (2 * x + 1)) * 4"
    by (simp add: algebra_simps)
  show ?thesis
    unfolding boxPixel_def Let_def blockMean_def d i1 i2 i3 i4 by simp
qed

lemma boxPixel_nth:
  assumes "i < length buf"
  shows "boxPixel floatSrc srcW nextW y x buf ! i =
           (if i div 4 = y * nextW + x then blockMean floatSrc srcW y x (i mod 4) else buf ! i)"
proof (cases "i div 4 = y * nextW + x")
  case True
  define p where "p = y * nextW + x"
  define c where "c = i mod 4"
  have "i = (i div 4) * 4 + i mod 4" by simp
  then have i: "i = p * 4 + c"
    using True unfolding p_def c_def by metis
  have c: "c < 4" by (simp add: c_def)
  from c consider "c = 0" | "c = 1" | "c = 2" | "c = 3" by linarith
  then have "buf[p * 4 := blockMean floatSrc srcW y x 0,
         p * 4 + 1 := blockMean floatSrc srcW y x 1,
         p * 4 + 2 := blockMean floatSrc srcW y x 2,
         p * 4 + 3 := blockMean floatSrc srcW y x 3] ! (p * 4 + c) = blockMean floatSrc srcW y x c"
    using assms unfolding i by cases simp_all
  then show ?thesis
    using True unfolding boxPixel_alt by (simp add: p_def [symmetric] c_def [symmetric] i)
next
  case False
  define p where "p = y * nextW + x"
  from False have "i \<noteq> p * 4" "i \<noteq> p * 4 + 1" "i \<noteq> p * 4 + 2" "i \<noteq> p * 4 + 3"
    unfolding p_def by auto
  with False show ?thesis
    unfolding boxPixel_alt by (simp add: p_def [symmetric])
qed


lemma boxRow_nth_aux:
  assumes "i < length buf"
  shows "fold (boxPixel floatSrc srcW nextW y) [0..<n] buf ! i =
           (if y * nextW \<le> i div 4 \<and> i div 4 < y * nextW + n
            then blockMean floatSrc srcW y (i div 4 - y * nextW) (i mod 4) else buf ! i)"
proof (induction n)
  case 0
  show ?case by simp
next
  case (Suc n)
  have len: "i < length (fold (boxPixel floatSrc srcW nextW y) [0..<n] buf)"
    using assms by (simp add: length_boxRow_aux)
  have "fold (boxPixel floatSrc srcW nextW y) [0..<Suc n] buf ! i =
          boxPixel floatSrc srcW nextW y n (fold (boxPixel floatSrc srcW nextW y) [0..<n] buf) ! i"
    by simp
  also have "\<dots> = (if i div 4 = y * nextW + n then blockMean floatSrc srcW y n (i mod 4)
                    else fold (boxPixel floatSrc srcW nextW y) [0..<n] buf ! i)"
    by (rule boxPixel_nth [OF len])
  finally show ?case
    unfolding Suc.IH by (cases "i div 4 = y * nextW + n") auto
qed

lemma boxRow_nth:
  assumes "i < length buf"
  shows "boxRow floatSrc srcW nextW y buf ! i =
           (if y * nextW \<le> i div 4 \<and> i div 4 < y * nextW + nextW
            then blockMean floatSrc srcW y (i div 4 - y * nextW) (i mod 4) else buf ! i)"
  unfolding boxRow_def by (rule boxRow_nth_aux [OF assms])

lemma boxRows_nth:
  assumes "i < length buf"
  shows "fold (boxRow floatSrc srcW nextW) [0..<m] buf ! i =
           (if i div 4 < m * nextW
            then blockMean floatSrc srcW ((i div 4) div nextW) ((i div 4) mod nextW) (i mod 4)
            else buf ! i)"
proof (induction m)
  case 0
  show ?case by simp
next
  case (Suc m)
  let ?p = "i div 4"
  have len: "i < length (fold (boxRow floatSrc srcW nextW) [0..<m] buf)"
    using assms by (simp add: length_boxRows)
  have step: "fold (boxRow floatSrc srcW nextW) [0..<Suc m] buf ! i =
          (if m * nextW \<le> ?p \<and> ?p < m * nextW + nextW
            then blockMean floatSrc srcW m (?p - m * nextW) (i mod 4)
            else fold (boxRow floatSrc srcW nextW) [0..<m] buf ! i)"
    using boxRow_nth [OF len] by simp
  show ?case
  proof (cases "m * nextW \<le> ?p \<and> ?p < m * nextW + nextW")
    case True
    then have "?p div nextW = m"
      by (metis add.commute div_nat_eqI mult.commute mult_Suc_right)
    moreover from this have "?p mod nextW = ?p - m * nextW"
      by (metis minus_mult_div_eq_mod mult.commute)
    ultimately show ?thesis
      using True step by simp
  next
    case False
    then show ?thesis
      using step Suc.IH by auto
  qed
qed

lemma boxFilter_average:
  assumes "y < srcH div 2" and "x < srcW div 2" and "c < 4"
  shows "boxFilter floatSrc srcW srcH ! ((y * (srcW div 2) + x) * 4 + c)
           = blockMean floatSrc srcW y x c"
proof -
  let ?nw = "srcW div 2" and ?nh = "srcH div 2"
  let ?i = "(y * ?nw + x) * 4 + c"
  have dm: "(q * 4 + c) div 4 = q" "(q * 4 + c) mod 4 = c" for q
    using assms(3) by simp_all
  have p: "?i div 4 = y * ?nw + x" and cm: "?i mod 4 = c"
    by (rule dm)+
  have "y * ?nw + x < y * ?nw + ?nw" using assms(2) by simp
  also have "\<dots> = Suc y * ?nw" by simp
  also have "\<dots> \<le> ?nh * ?nw" using assms(1) by (intro mult_le_mono1) simp
  finally have lt: "y * ?nw + x < ?nh * ?nw" .
  then have len: "?i < length (replicate (?nw * ?nh * 4) (0::real))"
    using assms(3) by (simp add: mult.commute)
  have d: "(y * ?nw + x) div ?nw = y" "(y * ?nw + x) mod ?nw = x"
    using assms(2) by simp_all
  show ?thesis
    unfolding boxFilter_def Let_def boxRows_nth [OF len] p cm d using lt by simp
qed

lemma block_reads_in_range:
  fixes x y c srcW srcH :: nat
  assumes "y < srcH div 2" and "x < srcW div 2" and "c < 4"
  shows "((2 * y + 1) * srcW + (2 * x + 1)) * 4 + c < srcW * srcH * 4"
proof -
  have "2 * x + 1 < srcW" using assms(2) by linarith
  then have "(2 * y + 1) * srcW + (2 * x + 1) < (2 * y + 1) * srcW + srcW" by simp
  also have "\<dots> = (2 * y + 2) * srcW" by (simp add: algebra_simps)
  also have "\<dots> \<le> srcH * srcW"
    using assms(1) by (intro mult_le_mono1) linarith
  finally show ?thesis using assms(3) by (simp add: mult.commute)
qed

lemma pyramid_exits:
  assumes "1 \<le> tgtWidth"
  shows "\<exists>buf w h. pyramid floatSrc srcW srcH tgtWidth tgtHeight = Some (buf, w, h)
           \<and> (real w \<le> tgtWidth * 2 \<or> real h \<le> tgtHeight * 2)"
proof (induction srcW arbitrary: floatSrc srcH rule: less_induct)
  case (less srcW)
  show ?case
  proof (cases "real srcW > tgtWidth * 2 \<and> real srcH > tgtHeight * 2")
    case True
    with assms have "0 < srcW" by (cases srcW) auto
    then have "srcW div 2 < srcW" by simp
    from less.IH [OF this, of "boxFilter floatSrc srcW srcH" "srcH div 2"] True
    show ?thesis by (subst pyramid.simps) simp
  next
    case False
    then show ?thesis by (subst pyramid.simps) auto
  qed
qed


lemma pyramid_buffer_size_aux:
  assumes "pyramid floatSrc srcW srcH tgtWidth tgtHeight = Some y"
  shows "length floatSrc = srcW * srcH * 4 \<longrightarrow> length (fst y) = fst (snd y) * snd (snd y) * 4"
proof (rule pyramid.raw_induct
    [where P = "\<lambda>src sw sh tw th r. length src = sw * sh * 4
                  \<longrightarrow> length (fst r) = fst (snd r) * snd (snd r) * 4", OF _ assms])
  fix run :: "real list \<Rightarrow> nat \<Rightarrow> nat \<Rightarrow> real \<Rightarrow> real \<Rightarrow> (real list \<times> nat \<times> nat) option"
  fix src sw sh tw th r
  assume IH: "\<And>src sw sh tw th r. run src sw sh tw th = Some r \<Longrightarrow>
      length src = sw * sh * 4 \<longrightarrow> length (fst r) = fst (snd r) * snd (snd r) * 4"
  assume step: "(if tw * 2 < real sw \<and> th * 2 < real sh
      then run (boxFilter src sw sh) (sw div 2) (sh div 2) tw th
      else Some (src, sw, sh)) = Some r"
  show "length src = sw * sh * 4 \<longrightarrow> length (fst r) = fst (snd r) * snd (snd r) * 4"
  proof (cases "tw * 2 < real sw \<and> th * 2 < real sh")
    case True
    with step have "run (boxFilter src sw sh) (sw div 2) (sh div 2) tw th = Some r"
      by simp
    from IH [OF this] show ?thesis
      by (simp add: length_boxFilter)
  next
    case False
    with step show ?thesis by auto
  qed
qed

lemma pyramid_buffer_size:
  assumes "pyramid floatSrc srcW srcH tgtWidth tgtHeight = Some (buf, w, h)"
    and "length floatSrc = srcW * srcH * 4"
  shows "length buf = w * h * 4"
  using pyramid_buffer_size_aux [OF assms(1)] assms(2) by simp

text \<open>The loop exits as soon as one target is not negative.\<close>

lemma pyramid_returns_width:
  assumes "0 \<le> tgtWidth"
  shows "\<exists>r. pyramid floatSrc srcW srcH tgtWidth tgtHeight = Some r"
proof (induction srcW arbitrary: floatSrc srcH rule: less_induct)
  case (less srcW)
  show ?case
  proof (cases "real srcW > tgtWidth * 2 \<and> real srcH > tgtHeight * 2")
    case True
    with assms have "0 < srcW" by (cases srcW) auto
    then have "srcW div 2 < srcW" by simp
    from less.IH [OF this, of "boxFilter floatSrc srcW srcH" "srcH div 2"] True
    show ?thesis by (subst pyramid.simps) simp
  next
    case False
    then show ?thesis by (subst pyramid.simps) auto
  qed
qed

lemma pyramid_returns_height:
  assumes "0 \<le> tgtHeight"
  shows "\<exists>r. pyramid floatSrc srcW srcH tgtWidth tgtHeight = Some r"
proof (induction srcH arbitrary: floatSrc srcW rule: less_induct)
  case (less srcH)
  show ?case
  proof (cases "real srcW > tgtWidth * 2 \<and> real srcH > tgtHeight * 2")
    case True
    with assms have "0 < srcH" by (cases srcH) auto
    then have "srcH div 2 < srcH" by simp
    from less.IH [OF this, of "boxFilter floatSrc srcW srcH" "srcW div 2"] True
    show ?thesis by (subst pyramid.simps) simp
  next
    case False
    then show ?thesis by (subst pyramid.simps) auto
  qed
qed

lemma pyramid_returns:
  assumes "\<not> (tgtWidth < 0 \<and> tgtHeight < 0)"
  shows "\<exists>r. pyramid floatSrc srcW srcH tgtWidth tgtHeight = Some r"
proof (cases "0 \<le> tgtWidth")
  case True
  then show ?thesis by (rule pyramid_returns_width)
next
  case False
  with assms have "0 \<le> tgtHeight" by simp
  then show ?thesis by (rule pyramid_returns_height)
qed


text \<open>
  Claim C4. For targets of at least 1 the pyramid loop ends, and at its exit
  \<open>srcW \<le> 2 * targetWidth\<close> or \<open>srcH \<le> 2 * targetHeight\<close>. While both sizes exceed twice
  their target, one iteration continues with the buffer \<open>boxFilter\<close> of
  \<open>floor(srcW / 2)\<close> by \<open>floor(srcH / 2)\<close> pixels, each channel of each pixel being the mean
  of the four samples of its 2x2 source block. The source sizes are arbitrary.
\<close>

theorem pyramid_halves_and_exits:
  assumes "1 \<le> tgtWidth" and "1 \<le> tgtHeight"
  shows "(\<exists>buf w h. pyramid floatSrc srcW srcH tgtWidth tgtHeight = Some (buf, w, h)
            \<and> (real w \<le> tgtWidth * 2 \<or> real h \<le> tgtHeight * 2))
       \<and> (real srcW > tgtWidth * 2 \<and> real srcH > tgtHeight * 2 \<longrightarrow>
            pyramid floatSrc srcW srcH tgtWidth tgtHeight =
            pyramid (boxFilter floatSrc srcW srcH) (srcW div 2) (srcH div 2) tgtWidth tgtHeight)
       \<and> length (boxFilter floatSrc srcW srcH) = (srcW div 2) * (srcH div 2) * 4
       \<and> (\<forall>y < srcH div 2. \<forall>x < srcW div 2. \<forall>c < 4.
            boxFilter floatSrc srcW srcH ! ((y * (srcW div 2) + x) * 4 + c)
              = (floatSrc ! (((2 * y) * srcW + 2 * x) * 4 + c)
                 + floatSrc ! (((2 * y) * srcW + (2 * x + 1)) * 4 + c)
                 + floatSrc ! (((2 * y + 1) * srcW + 2 * x) * 4 + c)
                 + floatSrc ! (((2 * y + 1) * srcW + (2 * x + 1)) * 4 + c)) / 4)"
proof -
  have "real srcW > tgtWidth * 2 \<and> real srcH > tgtHeight * 2 \<longrightarrow>
            pyramid floatSrc srcW srcH tgtWidth tgtHeight =
            pyramid (boxFilter floatSrc srcW srcH) (srcW div 2) (srcH div 2) tgtWidth tgtHeight"
    by (subst pyramid.simps) simp
  moreover have "\<forall>y < srcH div 2. \<forall>x < srcW div 2. \<forall>c < 4.
            boxFilter floatSrc srcW srcH ! ((y * (srcW div 2) + x) * 4 + c)
              = (floatSrc ! (((2 * y) * srcW + 2 * x) * 4 + c)
                 + floatSrc ! (((2 * y) * srcW + (2 * x + 1)) * 4 + c)
                 + floatSrc ! (((2 * y + 1) * srcW + 2 * x) * 4 + c)
                 + floatSrc ! (((2 * y + 1) * srcW + (2 * x + 1)) * 4 + c)) / 4"
  proof -
    have q: "a * 0.25 = a / 4" for a :: real by simp
    have "boxFilter floatSrc srcW srcH ! ((y * (srcW div 2) + x) * 4 + c)
        = blockMean floatSrc srcW y x c" if "y < srcH div 2" "x < srcW div 2" "c < 4" for y x c
      using that by (rule boxFilter_average)
    then show ?thesis unfolding blockMean_def q by blast
  qed
  ultimately show ?thesis
    using pyramid_exits [OF assms(1)] length_boxFilter by blast
qed

theorem pyramid_halves_and_exits_witness:
  "(1::real) \<le> 1 \<and> real 4 > 1 * 2 \<and> (1::nat) < 4 div 2 \<and> (2::nat) < 4
   \<and> (\<exists>buf w h. pyramid rampBuffer 4 4 1 1 = Some (buf, w, h) \<and> (real w \<le> 1 * 2 \<or> real h \<le> 1 * 2))
   \<and> pyramid rampBuffer 4 4 1 1 = pyramid (boxFilter rampBuffer 4 4) 2 2 1 1
   \<and> length (boxFilter rampBuffer 4 4) = 16
   \<and> boxFilter rampBuffer 4 4 ! 14 = 52"
proof -
  have one: "(1::real) \<le> 1" by simp
  note inst = pyramid_halves_and_exits [OF one one, of rampBuffer 4 4]
  note avg = inst [THEN conjunct2, THEN conjunct2, THEN conjunct2, rule_format, of 1 1 2]
  have "boxFilter rampBuffer 4 4 ! ((1 * (4 div 2) + 1) * 4 + 2) =
      (rampBuffer ! (((2 * 1) * 4 + 2 * 1) * 4 + 2)
                 + rampBuffer ! (((2 * 1) * 4 + (2 * 1 + 1)) * 4 + 2)
                 + rampBuffer ! (((2 * 1 + 1) * 4 + 2 * 1) * 4 + 2)
                 + rampBuffer ! (((2 * 1 + 1) * 4 + (2 * 1 + 1)) * 4 + 2)) / 4"
    by (rule avg) simp_all
  then have v: "boxFilter rampBuffer 4 4 ! 14 = 52"
    by (simp add: rampBuffer_def)
  have a: "(1::real) \<le> 1 \<and> real 4 > 1 * 2 \<and> (1::nat) < 4 div 2 \<and> (2::nat) < 4"
    by simp
  have b: "pyramid rampBuffer 4 4 1 1 = pyramid (boxFilter rampBuffer 4 4) 2 2 1 1"
    using inst [THEN conjunct2, THEN conjunct1] by simp
  have c: "length (boxFilter rampBuffer 4 4) = 16"
    using inst [THEN conjunct2, THEN conjunct2, THEN conjunct1] by simp
  show ?thesis
    using a inst [THEN conjunct1] b c v by blast
qed

section \<open>Properties of the tap weights\<close>

lemma foldl_plus_sum_list: "foldl (+) a xs = a + sum_list xs" for a :: real
  by (induction xs arbitrary: a) simp_all

lemma weightSum_sum_list: "weightSum weights = sum_list weights"
  by (simp add: weightSum_def foldl_plus_sum_list)

lemma those_divideNumber:
  assumes "s \<noteq> 0"
  shows "those (map (\<lambda>w. divideNumber w s) ws) = Some (map (\<lambda>w. w / s) ws)"
  using assms by (induction ws) (simp_all add: divideNumber_def)

lemma sum_list_scaled: "sum_list (map (\<lambda>w. w / s) ws) = sum_list ws / s" for s :: real
  by (induction ws) (simp_all add: add_divide_distrib)

lemma renormalize_cases:
  "renormalize weights wSum = Some (if wSum \<noteq> 0 then map (\<lambda>w. w / wSum) weights else weights)"
  by (simp add: renormalize_def those_divideNumber)

lemma renormalize_generic:
  "\<exists>ws. renormalize weights (weightSum weights) = Some ws
      \<and> length ws = length weights
      \<and> (weightSum weights \<noteq> 0 \<longrightarrow> sum_list ws = 1)
      \<and> (weightSum weights = 0 \<longrightarrow> ws = weights)"
  by (simp add: renormalize_cases sum_list_scaled weightSum_sum_list)

lemma length_tapWeights: "length (tapWeights center) = 6"
  by (simp add: tapWeights_def)

text \<open>
  Claim C5. For every six weights, and so for the weights of every output coordinate of
  the horizontal and of the vertical pass (\<open>axisWeights\<close> with the sizes of that axis):
  renormalization performs no division by zero (its result is \<open>Some\<close>); when the raw sum
  is not zero the renormalized weights sum to exactly 1; when the raw sum is zero the
  division is skipped and the weights stay as they are.
\<close>

theorem lanczos_weights_renormalized:
  "(\<exists>ws. renormalize weights (weightSum weights) = Some ws
      \<and> (weightSum weights \<noteq> 0 \<longrightarrow> sum_list ws = 1)
      \<and> (weightSum weights = 0 \<longrightarrow> ws = weights))
   \<and> (\<exists>ws. axisWeights srcSize tgtSize x = Some ws
      \<and> length ws = 6
      \<and> (weightSum (tapWeights (axisCenter srcSize tgtSize x)) \<noteq> 0 \<longrightarrow> sum_list ws = 1)
      \<and> (weightSum (tapWeights (axisCenter srcSize tgtSize x)) = 0
           \<longrightarrow> ws = tapWeights (axisCenter srcSize tgtSize x)))"
proof -
  have "\<exists>ws. axisWeights srcSize tgtSize x = Some ws
      \<and> length ws = 6
      \<and> (weightSum (tapWeights (axisCenter srcSize tgtSize x)) \<noteq> 0 \<longrightarrow> sum_list ws = 1)
      \<and> (weightSum (tapWeights (axisCenter srcSize tgtSize x)) = 0
           \<longrightarrow> ws = tapWeights (axisCenter srcSize tgtSize x))"
    using renormalize_generic [of "tapWeights (axisCenter srcSize tgtSize x)"]
    by (simp add: axisWeights_def Let_def length_tapWeights)
  moreover have "\<exists>ws. renormalize weights (weightSum weights) = Some ws
      \<and> (weightSum weights \<noteq> 0 \<longrightarrow> sum_list ws = 1)
      \<and> (weightSum weights = 0 \<longrightarrow> ws = weights)"
    using renormalize_generic [of weights] by blast
  ultimately show ?thesis by blast
qed

lemma upt_6: "[0..<6] = [0, 1, 2, 3, 4, 5]"
  by (simp add: upt_rec)

lemma center_half: "axisCenter 8 4 0 = 1 / 2"
  by (simp add: axisCenter_def)

lemma sin_facts:
  "sin (pi / 2) = 1" "sin (pi / 6) = 1 / 2" "sin (pi * 3 / 2) = - 1"
  "sin (pi * 5 / 2) = 1" "sin (pi * 5 / 6) = 1 / 2"
proof -
  show "sin (pi / 2) = 1" by simp
  show "sin (pi / 6) = 1 / 2" by (rule sin_30)
  have "pi * 3 / 2 = pi / 2 + pi" by simp
  then have "sin (pi * 3 / 2) = - sin (pi / 2)" by (simp only: sin_periodic_pi)
  then show "sin (pi * 3 / 2) = - 1" by simp
  have "pi * 5 / 2 = pi / 2 + 2 * pi" by simp
  then have "sin (pi * 5 / 2) = sin (pi / 2)" by (simp only: sin_periodic)
  then show "sin (pi * 5 / 2) = 1" by simp
  have "pi * 5 / 6 = pi - pi / 6" by simp
  then have "sin (pi * 5 / 6) = sin (pi / 6)" by (simp only: sin_pi_minus)
  then show "sin (pi * 5 / 6) = 1 / 2" by (simp only: sin_30)
qed

lemma lanczos_values:
  "lanczos (1 / 2) = 6 / pi\<^sup>2" "lanczos (- (1 / 2)) = 6 / pi\<^sup>2"
  "lanczos (3 / 2) = - (4 / (3 * pi\<^sup>2))" "lanczos (- (3 / 2)) = - (4 / (3 * pi\<^sup>2))"
  "lanczos (5 / 2) = 6 / (25 * pi\<^sup>2)" "lanczos (- (5 / 2)) = 6 / (25 * pi\<^sup>2)"
  by (simp_all add: lanczos_def Let_def sin_facts(2-5) power2_eq_square)


lemma tapWeights_half:
  "tapWeights (1 / 2) =
     [6 / (25 * pi\<^sup>2), - (4 / (3 * pi\<^sup>2)), 6 / pi\<^sup>2, 6 / pi\<^sup>2, - (4 / (3 * pi\<^sup>2)), 6 / (25 * pi\<^sup>2)]"
proof -
  have a: "1 / 2 - real_of_int (\<lfloor>1 / 2 :: real\<rfloor> - 2 + int 0) = 5 / 2"
    "1 / 2 - real_of_int (\<lfloor>1 / 2 :: real\<rfloor> - 2 + int 1) = 3 / 2"
    "1 / 2 - real_of_int (\<lfloor>1 / 2 :: real\<rfloor> - 2 + int 2) = 1 / 2"
    "1 / 2 - real_of_int (\<lfloor>1 / 2 :: real\<rfloor> - 2 + int 3) = - (1 / 2)"
    "1 / 2 - real_of_int (\<lfloor>1 / 2 :: real\<rfloor> - 2 + int 4) = - (3 / 2)"
    "1 / 2 - real_of_int (\<lfloor>1 / 2 :: real\<rfloor> - 2 + int 5) = - (5 / 2)"
    by simp_all
  show ?thesis
    unfolding tapWeights_def upt_6 Let_def list.map a lanczos_values ..
qed

lemma weightSum_half: "weightSum (tapWeights (1 / 2)) = 736 / (75 * pi\<^sup>2)"
  unfolding tapWeights_half weightSum_def by (simp add: field_simps)

theorem lanczos_weights_renormalized_witness:
  "weightSum [0, 0, 0, 0, 0, 0] = 0
   \<and> renormalize [0, 0, 0, 0, 0, 0] (weightSum [0, 0, 0, 0, 0, 0]) = Some [0, 0, 0, 0, 0, 0]
   \<and> weightSum (tapWeights (axisCenter 8 4 0)) = 736 / (75 * pi\<^sup>2)
   \<and> weightSum (tapWeights (axisCenter 8 4 0)) \<noteq> 0
   \<and> (\<exists>ws. axisWeights 8 4 0 = Some ws \<and> length ws = 6 \<and> sum_list ws = 1)"
proof -
  have z: "weightSum [0, 0, 0, 0, 0, 0] = 0"
    by (simp add: weightSum_def)
  have s: "weightSum (tapWeights (axisCenter 8 4 0)) = 736 / (75 * pi\<^sup>2)"
    by (simp only: center_half weightSum_half)
  have n: "weightSum (tapWeights (axisCenter 8 4 0)) \<noteq> 0"
    unfolding s by simp
  show ?thesis
    using z s n lanczos_weights_renormalized [of "[0, 0, 0, 0, 0, 0]" 8 4 0] by metis
qed

section \<open>Properties of the quantization\<close>

lemma roundTiesEven_bounds: "\<lfloor>c\<rfloor> \<le> roundTiesEven c" "roundTiesEven c \<le> \<lfloor>c\<rfloor> + 1"
  by (simp_all add: roundTiesEven_def Let_def)

lemma roundTiesEven_mono:
  assumes "c \<le> c'"
  shows "roundTiesEven c \<le> roundTiesEven c'"
proof (cases "\<lfloor>c\<rfloor> = \<lfloor>c'\<rfloor>")
  case True
  then show ?thesis
    using assms by (auto simp: roundTiesEven_def Let_def)
next
  case False
  with assms have "\<lfloor>c\<rfloor> < \<lfloor>c'\<rfloor>"
    using floor_mono [OF assms] by linarith
  then have "roundTiesEven c \<le> \<lfloor>c'\<rfloor>"
    using roundTiesEven_bounds(2) [of c] by linarith
  then show ?thesis
    using roundTiesEven_bounds(1) [of c'] by linarith
qed

lemma ToUint8Clamp_mono:
  assumes "x \<le> y"
  shows "ToUint8Clamp x \<le> ToUint8Clamp y"
proof -
  have "min (max x 0) 255 \<le> min (max y 0) 255"
    using assms by (simp add: min_def max_def)
  then show ?thesis
    unfolding ToUint8Clamp_def Let_def by (intro nat_mono roundTiesEven_mono)
qed

lemma ToUint8Clamp_le_255: "ToUint8Clamp x \<le> 255"
proof -
  have "roundTiesEven (min (max x 0) 255) \<le> 255"
  proof (cases "x \<ge> 255")
    case True
    then show ?thesis by (simp add: roundTiesEven_def min_def max_def)
  next
    case False
    then have "\<lfloor>min (max x 0) 255\<rfloor> \<le> 254"
      by (simp add: min_def max_def floor_le_iff)
    then show ?thesis
      using roundTiesEven_bounds(2) [of "min (max x 0) 255"] by linarith
  qed
  then show ?thesis by (simp add: ToUint8Clamp_def)
qed

lemma quantizePixel_nth:
  assumes "dstIdx + 3 < length finalData"
  shows "quantizePixel finalData dstIdx r g b a rand1 rand2 ! dstIdx
           = ToUint8Clamp (min r a + dither rand1 rand2)"
    and "quantizePixel finalData dstIdx r g b a rand1 rand2 ! (dstIdx + 1)
           = ToUint8Clamp (min g a + dither rand1 rand2)"
    and "quantizePixel finalData dstIdx r g b a rand1 rand2 ! (dstIdx + 2)
           = ToUint8Clamp (min b a + dither rand1 rand2)"
    and "quantizePixel finalData dstIdx r g b a rand1 rand2 ! (dstIdx + 3)
           = ToUint8Clamp (a + dither rand1 rand2)"
  using assms by (simp_all add: quantizePixel_def Let_def)

text \<open>
  Claim C3. The value stored in each colour channel of an output pixel is
  \<open>min(channel, alpha) + d\<close>, with the \<open>d\<close> that is added to alpha, converted to 8 bits
  by the clamping store; the clamp to alpha comes before the dither and the rounding. So
  each clamped colour value is at most alpha before the dither, and each stored colour
  byte is at most the stored alpha byte.
\<close>

theorem color_never_exceeds_alpha:
  assumes "dstIdx + 3 < length finalData"
  shows "quantizePixel finalData dstIdx r g b a rand1 rand2 ! dstIdx
           = ToUint8Clamp (min r a + dither rand1 rand2)
       \<and> quantizePixel finalData dstIdx r g b a rand1 rand2 ! (dstIdx + 1)
           = ToUint8Clamp (min g a + dither rand1 rand2)
       \<and> quantizePixel finalData dstIdx r g b a rand1 rand2 ! (dstIdx + 2)
           = ToUint8Clamp (min b a + dither rand1 rand2)
       \<and> quantizePixel finalData dstIdx r g b a rand1 rand2 ! (dstIdx + 3)
           = ToUint8Clamp (a + dither rand1 rand2)
       \<and> min r a \<le> a \<and> min g a \<le> a \<and> min b a \<le> a
       \<and> quantizePixel finalData dstIdx r g b a rand1 rand2 ! dstIdx
           \<le> quantizePixel finalData dstIdx r g b a rand1 rand2 ! (dstIdx + 3)
       \<and> quantizePixel finalData dstIdx r g b a rand1 rand2 ! (dstIdx + 1)
           \<le> quantizePixel finalData dstIdx r g b a rand1 rand2 ! (dstIdx + 3)
       \<and> quantizePixel finalData dstIdx r g b a rand1 rand2 ! (dstIdx + 2)
           \<le> quantizePixel finalData dstIdx r g b a rand1 rand2 ! (dstIdx + 3)"
proof -
  have "ToUint8Clamp (min c a + dither rand1 rand2) \<le> ToUint8Clamp (a + dither rand1 rand2)" for c
    by (rule ToUint8Clamp_mono) simp
  then show ?thesis
    unfolding quantizePixel_nth [OF assms] by simp
qed

lemma ToUint8Clamp_examples:
  "ToUint8Clamp (403 / 4) = 101" "ToUint8Clamp (41 / 4) = 10"
  "ToUint8Clamp (37 / 4) = 9" "ToUint8Clamp (77 / 4) = 19"
  "ToUint8Clamp (117 / 4) = 29" "ToUint8Clamp (157 / 4) = 39"
  by (simp_all add: ToUint8Clamp_def roundTiesEven_def Let_def)

lemma quantizePixel_example_clamped:
  "quantizePixel [0, 0, 0, 0] 0 (801 / 4) 10 300 (201 / 2) (3 / 4) (1 / 2) = [101, 10, 101, 101]"
proof -
  have d: "dither (3 / 4) (1 / 2) = 1 / 4"
    by (simp add: dither_def)
  have m: "min (801 / 4) (201 / 2 :: real) + 1 / 4 = 403 / 4"
    "min 10 (201 / 2 :: real) + 1 / 4 = 41 / 4"
    "min 300 (201 / 2 :: real) + 1 / 4 = 403 / 4"
    "(201 / 2 :: real) + 1 / 4 = 403 / 4"
    by simp_all
  show ?thesis
    unfolding quantizePixel_def Let_def d m ToUint8Clamp_examples by simp
qed

lemma quantizePixel_example_dark:
  "quantizePixel [7, 7, 7, 7] 0 10 20 30 40 0 (1 / 4) = [9, 19, 29, 39]"
proof -
  have d: "dither 0 (1 / 4) = - (3 / 4)"
    by (simp add: dither_def)
  have m: "min 10 (40 :: real) + - (3 / 4) = 37 / 4"
    "min 20 (40 :: real) + - (3 / 4) = 77 / 4"
    "min 30 (40 :: real) + - (3 / 4) = 117 / 4"
    "(40 :: real) + - (3 / 4) = 157 / 4"
    by simp_all
  show ?thesis
    unfolding quantizePixel_def Let_def d m ToUint8Clamp_examples by simp
qed

theorem color_never_exceeds_alpha_witness:
  "(0::nat) + 3 < length [0, 0, 0, 0 :: nat]
   \<and> quantizePixel [0, 0, 0, 0] 0 (801 / 4) 10 300 (201 / 2) (3 / 4) (1 / 2) = [101, 10, 101, 101]
   \<and> quantizePixel [0, 0, 0, 0] 0 (801 / 4) 10 300 (201 / 2) (3 / 4) (1 / 2) ! 0
       \<le> quantizePixel [0, 0, 0, 0] 0 (801 / 4) 10 300 (201 / 2) (3 / 4) (1 / 2) ! (0 + 3)"
proof -
  have len: "(0::nat) + 3 < length [0, 0, 0, 0 :: nat]" by simp
  show ?thesis
    using len quantizePixel_example_clamped
      color_never_exceeds_alpha [OF len, where r = "801 / 4" and g = 10 and b = 300
        and a = "201 / 2" and ?rand1.0 = "3 / 4" and ?rand2.0 = "1 / 2"]
    by blast
qed

theorem dither_open_interval_counterexample:
  "(0::real) \<le> 0 \<and> (0::real) < 1 \<and> \<not> (- 1 < dither 0 0 \<and> dither 0 0 < 1)"
  by (simp add: dither_def)

text \<open>
  Claim C9, amended. With both random numbers in \<open>[0, 1)\<close> the dither value lies in the
  half-open interval \<open>[-1, 1)\<close>, and the one value is added to all four channels of the
  pixel. The lower bound is attained when both draws are 0, so the open interval of the
  claim does not hold.
\<close>

theorem dither_range:
  assumes "0 \<le> rand1" "rand1 < 1" "0 \<le> rand2" "rand2 < 1"
  shows "- 1 \<le> dither rand1 rand2 \<and> dither rand1 rand2 < 1
       \<and> quantizePixel finalData dstIdx r g b a rand1 rand2 =
           finalData
            [dstIdx := ToUint8Clamp (min r a + dither rand1 rand2),
             dstIdx + 1 := ToUint8Clamp (min g a + dither rand1 rand2),
             dstIdx + 2 := ToUint8Clamp (min b a + dither rand1 rand2),
             dstIdx + 3 := ToUint8Clamp (a + dither rand1 rand2)]"
  using assms by (simp add: dither_def quantizePixel_def Let_def)

theorem dither_range_witness:
  "(0::real) \<le> 0 \<and> (0::real) < 1 \<and> (0::real) \<le> 1 / 4 \<and> (1 / 4 :: real) < 1
   \<and> - 1 \<le> dither 0 (1 / 4) \<and> dither 0 (1 / 4) < 1
   \<and> quantizePixel [7, 7, 7, 7] 0 10 20 30 40 0 (1 / 4) = [9, 19, 29, 39]"
proof -
  have h: "(0::real) \<le> 0" "(0::real) < 1" "(0::real) \<le> 1 / 4" "(1 / 4 :: real) < 1"
    by simp_all
  show ?thesis
    using h quantizePixel_example_dark
      dither_range [OF h, where finalData = "[7, 7, 7, 7]" and dstIdx = 0 and r = 10
        and g = 20 and b = 30 and a = 40]
    by blast
qed

section \<open>Properties of the packaging and of the failure handling\<close>

subsection \<open>\<open>resizeImage\<close>\<close>



lemma resizeImage_no_import: "\<not> importContext env \<Longrightarrow> resizeImage env source w h = Some None"
  by (simp add: resizeImage_def resizeImageBody_def getRawBytesViaWebGL_def split: sum.split)

text \<open>The call returns unless the import succeeds and both targets are negative.\<close>

lemma resizeImage_returns:
  assumes "\<not> (w < 0 \<and> h < 0)"
  shows "resizeImage env source w h \<noteq> None"
proof -
  have "resizeImageBody env source w h \<noteq> None"
  proof (cases "createImageBitmap env source")
    case (Inl e)
    then show ?thesis by (simp add: resizeImageBody_def)
  next
    case (Inr img)
    show ?thesis
    proof (cases "getRawBytesViaWebGL env img (bitmapWidth img) (bitmapHeight img)")
      case (Inl e)
      with Inr show ?thesis by (simp add: resizeImageBody_def)
    next
      case raw: (Inr r)
      show ?thesis
      proof (cases r)
        case None
        with Inr raw show ?thesis by (simp add: resizeImageBody_def)
      next
        case (Some rawData)
        obtain floatSrc srcW srcH where
          "pyramid (map real rawData) (bitmapWidth img) (bitmapHeight img) w h
             = Some (floatSrc, srcW, srcH)"
          using pyramid_returns [OF assms, of "map real rawData" "bitmapWidth img" "bitmapHeight img"]
          by (metis prod_cases3)
        with Inr raw Some show ?thesis
          by (simp add: resizeImageBody_def split: sum.split)
      qed
    qed
  qed
  then show ?thesis
    by (simp add: resizeImage_def split: option.split sum.split)
qed



subsection \<open>The loop\<close>

lemma processTask_returns:
  assumes "resizeReturns task"
  shows "\<exists>z'. processTask (browserAt k) n z task = Some z'
    \<and> rootFolder z' = rootFolder z
    \<and> completed z' = Suc (completed z)
    \<and> files z' = (files z)(fileName task \<mapsto> payload browserAt k task)
    \<and> resizeCalls z' = resizeCalls z @ (if isResize task then [resizeArgs task] else [])"
proof (cases "isResize task")
  case False
  then show ?thesis
    by (simp add: processTask_def reportProgress_def addFile_def payload_def Let_def)
next
  case True
  with assms have "\<not> (targetWidth task < 0 \<and> targetHeight task < 0)"
    by (simp add: resizeReturns_def)
  then obtain r where
    "resizeImage (browserAt k) (blob task) (targetWidth task) (targetHeight task) = Some r"
    using resizeImage_returns by blast
  with True show ?thesis
    by (cases r)
      (simp_all add: processTask_def reportProgress_def addFile_def payload_def resizeArgs_def
        Let_def)
qed

lemma zipLoop_returns:
  assumes "rootFolder z = Some folder" and "\<forall>t \<in> set tasks. resizeReturns t"
  shows "\<exists>z'. zipLoop browserAt n z tasks = Some z'
    \<and> rootFolder z' = Some folder
    \<and> completed z' = completed z + length tasks
    \<and> files z' = storeAll (handedOver browserAt (completed z) tasks) (files z)
    \<and> resizeCalls z' = resizeCalls z @ map resizeArgs (filter isResize tasks)"
  using assms
proof (induction tasks arbitrary: z)
  case Nil
  then show ?case by (simp add: storeAll_def)
next
  case (Cons task rest)
  from Cons.prems(2) have "resizeReturns task" by simp
  from processTask_returns [OF this, of browserAt "completed z" n z]
  obtain z1 where z1: "processTask (browserAt (completed z)) n z task = Some z1"
    "rootFolder z1 = rootFolder z" "completed z1 = Suc (completed z)"
    "files z1 = (files z)(fileName task \<mapsto> payload browserAt (completed z) task)"
    "resizeCalls z1 = resizeCalls z @ (if isResize task then [resizeArgs task] else [])"
    by blast
  have "rootFolder z1 = Some folder" using z1(2) Cons.prems(1) by simp
  moreover have "\<forall>t \<in> set rest. resizeReturns t" using Cons.prems(2) by simp
  ultimately obtain z' where z': "zipLoop browserAt n z1 rest = Some z'"
    "rootFolder z' = Some folder" "completed z' = completed z1 + length rest"
    "files z' = storeAll (handedOver browserAt (completed z1) rest) (files z1)"
    "resizeCalls z' = resizeCalls z1 @ map resizeArgs (filter isResize rest)"
    using Cons.IH [of z1] by blast
  have "zipLoop browserAt n z (task # rest) = Some z'"
    using Cons.prems(1) z1(1) z'(1) by simp
  moreover have "files z' = storeAll (handedOver browserAt (completed z) (task # rest)) (files z)"
    using z'(4) z1(3,4) by (simp add: storeAll_def)
  moreover have "resizeCalls z' = resizeCalls z @ map resizeArgs (filter isResize (task # rest))"
    using z'(5) z1(5) by simp
  ultimately show ?case
    using z'(2,3) z1(3) by simp
qed


text \<open>Without a root folder the loop breaks at once and nothing is stored.\<close>

lemma no_root_folder_no_files:
  "generateOptimizedZip False browserAt tasks =
     Some \<lparr> rootFolder = None, files = Map.empty, completed = 0, progressCalls = [],
            resizeCalls = [] \<rparr>"
  by (cases tasks) (simp_all add: generateOptimizedZip_def)

subsection \<open>The files of the folder\<close>








text \<open>
  The run as a whole: when the resize of every task can return, the loop ends with all
  tasks processed, and the name of a task that no later task shares holds its payload.
\<close>

lemma generateOptimizedZip_returns:
  assumes "\<forall>t \<in> set tasks. resizeReturns t"
  shows "\<exists>z. generateOptimizedZip True browserAt tasks = Some z
    \<and> rootFolder z = Some ''images_optimized''
    \<and> completed z = length tasks
    \<and> files z = storeAll (handedOver browserAt 0 tasks) Map.empty
    \<and> resizeCalls z = map resizeArgs (filter isResize tasks)"
proof -
  let ?z0 = "\<lparr> rootFolder = Some ''images_optimized'', files = Map.empty, completed = 0,
     progressCalls = [], resizeCalls = [] \<rparr>"
  have "rootFolder ?z0 = Some ''images_optimized''" by simp
  from zipLoop_returns [OF this assms, of browserAt "length tasks"] show ?thesis
    by (simp add: generateOptimizedZip_def)
qed



subsection \<open>Examples\<close>





lemma example_resize_fails:
  "resizeImage noWebGLBrowser source w h = Some None"
  by (rule resizeImage_no_import) (simp add: noWebGLBrowser_def)

lemma example_resize_succeeds:
  "resizeImage workingBrowser [137, 80, 78, 71] 100 50 = Some (Some [1, 2, 3])"
proof -
  have "pyramid floatSrc 100 100 100 50 = Some (floatSrc, 100, 100)" for floatSrc
    by (subst pyramid.simps) simp
  then show ?thesis
    by (simp add: resizeImage_def resizeImageBody_def getRawBytesViaWebGL_def
        exportBytesViaWebGL_def workingBrowser_def)
qed



lemma exampleTasks_values:
  "exampleTasks ! 0 = buildTask heroStat heroImage 0"
  "exampleTasks ! Suc 0 = buildTask iconStat iconImage 0"
  "length exampleTasks = 2"
  by (simp_all add: exampleTasks_def)

lemma example_run:
  "\<exists>z. generateOptimizedZip True exampleBrowserAt exampleTasks = Some z
     \<and> files z ''skins.v2/hero.png'' = Some [137, 80, 78, 71]
     \<and> files z ''ui/icon.png'' = Some [255, 216]
     \<and> dom (files z) = {''skins.v2/hero.png'', ''ui/icon.png''}
     \<and> completed z = 2
     \<and> resizeCalls z = [([137, 80, 78, 71], 100, 50)]"
proof -
  have "\<forall>t \<in> set exampleTasks. resizeReturns t"
    by (simp add: exampleTasks_def example_hero_task example_icon_task resizeReturns_def)
  from generateOptimizedZip_returns [OF this, of exampleBrowserAt]
  obtain z where z: "generateOptimizedZip True exampleBrowserAt exampleTasks = Some z"
    "completed z = length exampleTasks"
    "files z = storeAll (handedOver exampleBrowserAt 0 exampleTasks) Map.empty"
    "resizeCalls z = map resizeArgs (filter isResize exampleTasks)"
    by blast
  have "files z ''skins.v2/hero.png'' = Some [137, 80, 78, 71]"
    "files z ''ui/icon.png'' = Some [255, 216]"
    "dom (files z) = {''skins.v2/hero.png'', ''ui/icon.png''}"
    unfolding z(3)
    by (auto simp: exampleTasks_def example_hero_task example_icon_task storeAll_def
        payload_def exampleBrowserAt_def example_resize_fails)
  moreover have "resizeCalls z = [([137, 80, 78, 71], 100, 50)]"
    unfolding z(4)
    by (simp add: exampleTasks_def example_hero_task example_icon_task resizeArgs_def)
  ultimately show ?thesis
    using z(1,2) by (simp add: exampleTasks_values)
qed




subsection \<open>Fallback and copy\<close>







end
